theory Spec2Isabelle
  imports Complex_Main
begin

section \<open>JavaScript numbers and arrays\<close>

text \<open>
  The sensor samples and every value computed from them are JavaScript numbers, that is
  IEEE doubles.  A finite double is a \<^typ>\<open>real\<close>.  In the processing of a capture
  (trimming, velocity, metrics) the arithmetic is exact: rounding and overflow are not
  modelled there.  In the auto-stop check and in the session summary, whose results turn
  on single roundings, every operation is rounded to the nearest double (section
  ``Double arithmetic'').  The special values that the code can produce without rounding
  are kept: \<^verbatim>\<open>Math.max()\<close> of no arguments is \<^verbatim>\<open>-Infinity\<close>.
\<close>

datatype jsnum = Num real | PosInfinity | NegInfinity | NaN

fun isFinite :: "jsnum \<Rightarrow> bool" where
  "isFinite (Num v) = True"
| "isFinite PosInfinity = False"
| "isFinite NegInfinity = False"
| "isFinite NaN = False"

text \<open>\<^verbatim>\<open>a > c\<close> and \<^verbatim>\<open>a < c\<close> for a number \<open>a\<close> and a finite constant \<open>c\<close>;
  every comparison with \<^verbatim>\<open>NaN\<close> is false.\<close>

fun js_gt :: "jsnum \<Rightarrow> real \<Rightarrow> bool" where
  "js_gt (Num v) c = (v > c)"
| "js_gt PosInfinity c = True"
| "js_gt NegInfinity c = False"
| "js_gt NaN c = False"

fun js_lt :: "jsnum \<Rightarrow> real \<Rightarrow> bool" where
  "js_lt (Num v) c = (v < c)"
| "js_lt PosInfinity c = False"
| "js_lt NegInfinity c = True"
| "js_lt NaN c = False"

text \<open>\<^verbatim>\<open>Math.max(...vs)\<close> for an array of finite numbers: \<^verbatim>\<open>-Infinity\<close> when the
  array is empty.\<close>

fun Math_max :: "real list \<Rightarrow> jsnum" where
  "Math_max [] = NegInfinity"
| "Math_max (v # vs) = (case Math_max vs of Num m \<Rightarrow> Num (max v m) | _ \<Rightarrow> Num v)"

text \<open>\<^verbatim>\<open>xs.slice(s, e)\<close> and \<^verbatim>\<open>xs.slice(s)\<close> for non-negative indices.\<close>

definition slice :: "nat \<Rightarrow> nat \<Rightarrow> 'a list \<Rightarrow> 'a list" where
  "slice s e xs = take (e - s) (drop s xs)"

definition slice_from :: "nat \<Rightarrow> 'a list \<Rightarrow> 'a list" where
  "slice_from s xs = drop s xs"

text \<open>\<^verbatim>\<open>xs[i] || 0\<close>: an index out of range reads \<^verbatim>\<open>undefined\<close>, which is falsy, and so
  is the number 0.\<close>

definition index_or0 :: "real list \<Rightarrow> nat \<Rightarrow> real" where
  "index_or0 xs i = (if i < length xs then xs ! i else 0)"

text \<open>\<^verbatim>\<open>JSON.parse(JSON.stringify(v))\<close> for a number: a finite number is kept, every other
  number is written as \<^verbatim>\<open>null\<close> (\<open>None\<close>).\<close>

fun JSON_number :: "jsnum \<Rightarrow> real option" where
  "JSON_number (Num v) = Some v"
| "JSON_number PosInfinity = None"
| "JSON_number NegInfinity = None"
| "JSON_number NaN = None"

text \<open>\<^verbatim>\<open>v || 0\<close> for a field read back from JSON.\<close>

fun or0 :: "real option \<Rightarrow> real" where
  "or0 None = 0"
| "or0 (Some v) = v"

section \<open>Double arithmetic\<close>

text \<open>
  The binade of a number \<open>x \<noteq> 0\<close> is the exponent \<open>k\<close> with \<open>2^k \<le> |x| < 2^(k+1)\<close>.  A double
  has a mantissa of 53 bits, so the doubles of that binade are the multiples of
  \<open>2^(k-52)\<close>, and \<open>rnd x\<close> is the multiple nearest to \<open>x\<close>, the even one of two that are
  equally near (IEEE 754 round to nearest, ties to even).  Overflow to \<^verbatim>\<open>Infinity\<close> and the
  subnormal range are not modelled: the numbers of a session are far from both.
\<close>

function binade :: "real \<Rightarrow> int" where
  "binade x =
     (if x = 0 then 0
      else if 2 \<le> \<bar>x\<bar> then binade (x / 2) + 1
      else if \<bar>x\<bar> < 1 then binade (x * 2) - 1
      else 0)"
  by pat_completeness auto
termination
proof (relation "measure (\<lambda>x. nat \<bar>\<lfloor>log 2 \<bar>x\<bar>\<rfloor>\<bar>)")
  show "wf (measure (\<lambda>x. nat \<bar>\<lfloor>log 2 \<bar>x\<bar>\<rfloor>\<bar>))" by simp
next
  fix x :: real
  assume "x \<noteq> 0" "2 \<le> \<bar>x\<bar>"
  then have "log 2 \<bar>x / 2\<bar> = log 2 \<bar>x\<bar> - 1"
    by (simp add: log_divide)
  moreover have "1 \<le> log 2 \<bar>x\<bar>"
    using \<open>2 \<le> \<bar>x\<bar>\<close> by (simp add: le_log_iff)
  then have "1 \<le> \<lfloor>log 2 \<bar>x\<bar>\<rfloor>" by linarith
  ultimately show "(x / 2, x) \<in> measure (\<lambda>x. nat \<bar>\<lfloor>log 2 \<bar>x\<bar>\<rfloor>\<bar>)"
    by simp
next
  fix x :: real
  assume "x \<noteq> 0" "\<not> 2 \<le> \<bar>x\<bar>" "\<bar>x\<bar> < 1"
  then have "log 2 \<bar>x * 2\<bar> = log 2 \<bar>x\<bar> + 1"
    by (simp add: log_mult abs_mult)
  moreover have "log 2 \<bar>x\<bar> < 0"
    using \<open>x \<noteq> 0\<close> \<open>\<bar>x\<bar> < 1\<close> by simp
  then have "\<lfloor>log 2 \<bar>x\<bar>\<rfloor> \<le> -1" by linarith
  ultimately show "(x * 2, x) \<in> measure (\<lambda>x. nat \<bar>\<lfloor>log 2 \<bar>x\<bar>\<rfloor>\<bar>)"
    by simp
qed

definition roundHalfEven :: "real \<Rightarrow> int" where
  "roundHalfEven r =
     (let f = \<lfloor>r\<rfloor>; d = r - of_int f
      in if d < 1 / 2 then f
         else if d > 1 / 2 then f + 1
         else if even f then f else f + 1)"

definition rnd :: "real \<Rightarrow> real" where
  "rnd x =
     (if x = 0 then 0
      else of_int (roundHalfEven (x / 2 powi (binade x - 52))) * 2 powi (binade x - 52))"

text \<open>The operations \<^verbatim>\<open>a + b\<close>, \<^verbatim>\<open>a - b\<close>, \<^verbatim>\<open>a * b\<close>, \<^verbatim>\<open>a / b\<close> (for \<open>b \<noteq> 0\<close>) and
  \<^verbatim>\<open>Math.sqrt(a)\<close> on doubles: the exact result, rounded.  \<^verbatim>\<open>Math.pow(a, 2)\<close> is taken
  to be the rounded square.\<close>

definition dadd :: "real \<Rightarrow> real \<Rightarrow> real" where
  "dadd a b = rnd (a + b)"

definition dsub :: "real \<Rightarrow> real \<Rightarrow> real" where
  "dsub a b = rnd (a - b)"

definition dmul :: "real \<Rightarrow> real \<Rightarrow> real" where
  "dmul a b = rnd (a * b)"

definition ddiv :: "real \<Rightarrow> real \<Rightarrow> real" where
  "ddiv a b = rnd (a / b)"

definition dsqrt :: "real \<Rightarrow> real" where
  "dsqrt a = rnd (sqrt a)"

definition dpow2 :: "real \<Rightarrow> real" where
  "dpow2 a = rnd (a * a)"

section \<open>Sensor data\<close>

text \<open>\<^verbatim>\<open>{ x: [], timestamps: [] }\<close> is the velocity series;
  \<^verbatim>\<open>{ x: [], y: [], z: [], timestamps: [] }\<close> is the acceleration or gyroscope stream.\<close>

record series =
  X :: "real list"
  timestamps :: "real list"

record axes = series +
  Y :: "real list"
  Z :: "real list"

record sensor_data =
  acceleration :: axes
  gyroscope :: axes
  velocity :: series

definition empty_axes :: axes where
  "empty_axes = \<lparr>X = [], timestamps = [], Y = [], Z = []\<rparr>"

definition empty_sensor_data :: sensor_data where
  "empty_sensor_data =
     \<lparr>acceleration = empty_axes, gyroscope = empty_axes,
      velocity = \<lparr>X = [], timestamps = []\<rparr>\<rparr>"

definition hasData :: "sensor_data \<Rightarrow> bool" where
  "hasData sd \<longleftrightarrow> length (X (acceleration sd)) > 0 \<or> length (X (gyroscope sd)) > 0"

section \<open>trimToActualThrow\<close>

text \<open>The magnitude \<^verbatim>\<open>Math.sqrt(x[i]^2 + y[i]^2 + z[i]^2)\<close>.  The loops only read
  \<open>i < x.length\<close>; a \<open>y\<close> or \<open>z\<close> array that is shorter reads \<^verbatim>\<open>undefined\<close> and the
  magnitude is \<^verbatim>\<open>NaN\<close>.\<close>

definition totalAccel :: "axes \<Rightarrow> nat \<Rightarrow> jsnum" where
  "totalAccel accel i =
     (if i < length (X accel) \<and> i < length (Y accel) \<and> i < length (Z accel)
      then Num (sqrt ((X accel ! i)\<^sup>2 + (Y accel ! i)\<^sup>2 + (Z accel ! i)\<^sup>2))
      else NaN)"

definition accelThreshold :: real where
  "accelThreshold = 2.0"

definition settlePeriod :: nat where
  "settlePeriod = 20"

text \<open>The first loop: \<open>startIndex\<close> stays 0 unless a sample exceeds the threshold.\<close>

function findStart :: "axes \<Rightarrow> nat \<Rightarrow> nat" where
  "findStart accel i =
     (if i < length (X accel)
      then (if js_gt (totalAccel accel i) accelThreshold
            then nat (max 0 (int i - 5))
            else findStart accel (Suc i))
      else 0)"
  by pat_completeness auto
termination
  by (relation "measure (\<lambda>(accel, i). length (X accel) - i)") auto

text \<open>The second loop, with its counter \<open>calmCount\<close>: \<open>endIndex\<close> stays
  \<open>accel.x.length - 1\<close> unless the counter reaches \<open>settlePeriod\<close>.\<close>

function findEnd :: "axes \<Rightarrow> nat \<Rightarrow> nat \<Rightarrow> nat" where
  "findEnd accel i calmCount =
     (if i < length (X accel)
      then (if js_lt (totalAccel accel i) 1.5
            then (if Suc calmCount \<ge> settlePeriod
                  then nat (int i - int settlePeriod + 10)
                  else findEnd accel (Suc i) (Suc calmCount))
            else findEnd accel (Suc i) 0)
      else length (X accel) - 1)"
  by pat_completeness auto
termination
  by (relation "measure (\<lambda>(accel, i, calmCount). length (X accel) - i)") auto

definition trimStart :: "axes \<Rightarrow> nat" where
  "trimStart accel = findStart accel 0"

definition trimEnd :: "axes \<Rightarrow> nat" where
  "trimEnd accel = findEnd accel (trimStart accel + 30) 0"

text \<open>\<open>startTime\<close> is \<open>timestamps[0]\<close> of the sliced acceleration timestamps.  The slice
  is empty only when the \<open>timestamps\<close> array is shorter than \<open>x\<close>, which the recording
  handler never produces (it pushes to the four arrays together); the model reads 0
  there.\<close>

definition trimToActualThrow :: "sensor_data \<Rightarrow> sensor_data" where
  "trimToActualThrow sd =
     (let accel = acceleration sd; gyro = gyroscope sd in
      if length (X accel) = 0 then sd
      else
        let startIndex = trimStart accel;
            endIndex = trimEnd accel;
            ts = slice startIndex (endIndex + 1) (timestamps accel);
            startTime = (case ts of [] \<Rightarrow> 0 | t # _ \<Rightarrow> t);
            accel' = \<lparr>X = slice startIndex (endIndex + 1) (X accel),
                      timestamps = map (\<lambda>t. t - startTime) ts,
                      Y = slice startIndex (endIndex + 1) (Y accel),
                      Z = slice startIndex (endIndex + 1) (Z accel)\<rparr>;
            gyro' = (if length (X gyro) > 0
                     then \<lparr>X = slice startIndex (endIndex + 1) (X gyro),
                           timestamps = map (\<lambda>t. t - startTime)
                              (slice startIndex (endIndex + 1) (timestamps gyro)),
                           Y = slice startIndex (endIndex + 1) (Y gyro),
                           Z = slice startIndex (endIndex + 1) (Z gyro)\<rparr>
                     else gyro)
        in sd\<lparr>acceleration := accel', gyroscope := gyro'\<rparr>)"

section \<open>calculateVelocity\<close>

text \<open>One pass of the loop body at index \<open>i\<close>: the trapezoid between samples \<open>i - 1\<close>
  and \<open>i\<close> is added to the last velocity.\<close>

definition velocityStep :: "axes \<Rightarrow> nat \<Rightarrow> series \<Rightarrow> series" where
  "velocityStep accel i vel =
     (let dt = timestamps accel ! i - timestamps accel ! (i - 1);
          prevVel = X vel ! (length (X vel) - 1);
          avgAccel = (X accel ! i + X accel ! (i - 1)) / 2;
          newVel = prevVel + avgAccel * dt
      in \<lparr>X = X vel @ [newVel], timestamps = timestamps vel @ [timestamps accel ! i]\<rparr>)"

text \<open>\<^verbatim>\<open>accel.timestamps[0] || 0\<close> starts the timestamps of the velocity series.\<close>

definition calculateVelocity :: "sensor_data \<Rightarrow> sensor_data" where
  "calculateVelocity sd =
     (let accel = acceleration sd;
          velocity0 = \<lparr>X = [0], timestamps = [index_or0 (timestamps accel) 0]\<rparr>
      in sd\<lparr>velocity := fold (velocityStep accel) [1..<length (X accel)] velocity0\<rparr>)"

section \<open>calculateAnalysisMetrics\<close>

text \<open>The metrics of one throw.  The record is built with JavaScript numbers
  (\<open>'n = jsnum\<close>) and read back from storage as JSON (\<open>'n = real option\<close>, \<open>None\<close> for
  \<^verbatim>\<open>null\<close>).\<close>

record 'n analysis =
  pushoffStrength :: 'n
  peakVelocity :: 'n
  slideDuration :: 'n
  decelRate :: 'n
  stabilityScore :: 'n
  glideEfficiency :: string

text \<open>\<^verbatim>\<open>data.reduce(f, 0)\<close> is \<open>foldl f 0 data\<close>.\<close>

definition calculateVariance :: "real list \<Rightarrow> real" where
  "calculateVariance data =
     (if length data = 0 then 0
      else
        let mean = foldl (\<lambda>a b. a + b) 0 data / real (length data);
            variance = foldl (\<lambda>acc val. acc + (val - mean)\<^sup>2) 0 data / real (length data)
        in variance)"

text \<open>\<^verbatim>\<open>gyro.x.map((pitch, i) => Math.sqrt(pitch^2 + (gyro.y[i] || 0)^2))\<close>\<close>

definition pitchRoll :: "axes \<Rightarrow> real list" where
  "pitchRoll gyro =
     map (\<lambda>i. sqrt ((X gyro ! i)\<^sup>2 + (index_or0 (Y gyro) i)\<^sup>2)) [0..<length (X gyro)]"

text \<open>\<^verbatim>\<open>Math.floor(accel.x.length * 0.2)\<close>\<close>

definition pushoffPeriod :: "axes \<Rightarrow> nat" where
  "pushoffPeriod accel = nat \<lfloor>real (length (X accel)) * 0.2\<rfloor>"

text \<open>The mean of the negative samples of the slide, before \<^verbatim>\<open>Math.abs\<close>.\<close>

definition rawDecelRate :: "axes \<Rightarrow> real" where
  "rawDecelRate accel =
     (let slideData = slice_from (pushoffPeriod accel) (X accel);
          negativeAccel = filter (\<lambda>a. a < 0) slideData
      in if length negativeAccel > 0
         then foldl (\<lambda>a b. a + b) 0 negativeAccel / real (length negativeAccel)
         else 0)"

text \<open>The stability score and the glide label, as the function computes them in line.\<close>

definition stabilityScoreOf :: "axes \<Rightarrow> real" where
  "stabilityScoreOf gyro =
     (let stabilityVariance = calculateVariance (pitchRoll gyro)
      in max 0 (min 100 (100 - log 10 (stabilityVariance + 1) * 20)))"

definition glideAssessment :: "real \<Rightarrow> string" where
  "glideAssessment avgDecel =
     (if avgDecel > 2.0 then ''Poor (High Drag)''
      else if avgDecel < 0.5 then ''Excellent''
      else if avgDecel < 1.0 then ''Very Good''
      else ''Good'')"

definition calculateAnalysisMetrics :: "sensor_data \<Rightarrow> jsnum analysis" where
  "calculateAnalysisMetrics sd =
     (let accel = acceleration sd; vel = velocity sd; gyro = gyroscope sd;
          pushoffData = slice 0 (pushoffPeriod accel) (X accel);
          ts = timestamps accel;
          decel = rawDecelRate accel
      in \<lparr>pushoffStrength = Math_max (map abs pushoffData),
          peakVelocity = Math_max (map abs (X vel)),
          slideDuration =
            Num (if length ts > 0 then ts ! (length ts - 1) - ts ! 0 else 0),
          decelRate = Num \<bar>decel\<bar>,
          stabilityScore = Num (stabilityScoreOf gyro),
          glideEfficiency = glideAssessment \<bar>decel\<bar>\<rparr>)"

section \<open>saveThrowToSession\<close>

text \<open>\<^verbatim>\<open>{ id: Date.now(), timestamp: ..., ...analysis, sessionId }\<close>; the clock reading is
  a parameter of the model.\<close>

record 'n throwData = "'n analysis" +
  throw_id :: int
  timestamp :: int
  sessionId :: int

record session =
  session_id :: int
  session_startTime :: int

text \<open>The three keys of \<^verbatim>\<open>localStorage\<close> the application writes; \<open>None\<close> is an absent
  key.  The values are JSON, so a number that is not finite is stored as \<^verbatim>\<open>null\<close>.\<close>

record storage =
  curling_current_session :: "session option"
  curling_session_throws :: "real option throwData list option"
  curling_latest_throw :: "real option throwData option"

text \<open>A throw as \<^verbatim>\<open>JSON.stringify\<close> writes it and \<^verbatim>\<open>JSON.parse\<close> reads it back.\<close>

definition JSON_throw :: "jsnum throwData \<Rightarrow> real option throwData" where
  "JSON_throw t =
     \<lparr>pushoffStrength = JSON_number (pushoffStrength t),
      peakVelocity = JSON_number (peakVelocity t),
      slideDuration = JSON_number (slideDuration t),
      decelRate = JSON_number (decelRate t),
      stabilityScore = JSON_number (stabilityScore t),
      glideEfficiency = glideEfficiency t,
      throw_id = throw_id t, timestamp = timestamp t, sessionId = sessionId t\<rparr>"

definition makeThrowData :: "int \<Rightarrow> jsnum analysis \<Rightarrow> int \<Rightarrow> jsnum throwData" where
  "makeThrowData now a sid =
     \<lparr>pushoffStrength = pushoffStrength a, peakVelocity = peakVelocity a,
      slideDuration = slideDuration a, decelRate = decelRate a,
      stabilityScore = stabilityScore a, glideEfficiency = glideEfficiency a,
      throw_id = now, timestamp = now, sessionId = sid\<rparr>"

text \<open>The session is created when storage has none; the throw is appended to the stored
  list and kept as the latest throw.  Storage that fails, or that holds text which does not
  parse, is not modelled.\<close>

definition saveThrowToSession :: "int \<Rightarrow> jsnum analysis \<Rightarrow> storage \<Rightarrow> storage" where
  "saveThrowToSession now a st =
     (let currentSession =
            (case curling_current_session st of
               None \<Rightarrow> \<lparr>session_id = now, session_startTime = now\<rparr>
             | Some cs \<Rightarrow> cs);
          throwData = makeThrowData now a (session_id currentSession);
          throws = (case curling_session_throws st of None \<Rightarrow> [] | Some ts \<Rightarrow> ts)
      in \<lparr>curling_current_session = Some currentSession,
          curling_session_throws = Some (throws @ [JSON_throw throwData]),
          curling_latest_throw = Some (JSON_throw throwData)\<rparr>)"

section \<open>The recorder: CurlingSlideAnalyzer\<close>

record buffer_point =
  bp_acceleration :: real
  bp_timestamp :: real

text \<open>The fields of the analyzer that the processing reads or writes.  \<open>listening\<close> says
  whether the \<^verbatim>\<open>devicemotion\<close> listener is attached; \<open>alerts\<close> and
  \<open>autoStopNotifications\<close> record the calls of \<^verbatim>\<open>alert\<close> and of
  \<^verbatim>\<open>showAutoStopNotification\<close>.  Charts, the status display and the analytics hooks are
  left out.\<close>

record analyzer =
  isRecording :: bool
  startTime :: int
  sensorData :: sensor_data
  autoStopBuffer :: "buffer_point list"
  lastAutoStopCheck :: real
  listening :: bool
  localStorage :: storage
  alerts :: "string list"
  autoStopNotifications :: nat

text \<open>The settings of the auto-stop check: \<^verbatim>\<open>startSensorListening\<close> assigns them and
  nothing changes them.\<close>

definition autoStopThreshold :: real where
  "autoStopThreshold = 1.5"

definition autoStopDuration :: real where
  "autoStopDuration = 3.0"

definition autoStopCheckInterval :: real where
  "autoStopCheckInterval = 0.5"

text \<open>Stopping: the data is processed, then analysed and stored.  \<open>now\<close> stands for the
  readings of \<^verbatim>\<open>Date.now()\<close>, in milliseconds, during the call.\<close>

definition processData :: "analyzer \<Rightarrow> analyzer" where
  "processData s =
     (if \<not> hasData (sensorData s)
      then s\<lparr>alerts := alerts s @ [''No sensor data recorded. Please try again.'']\<rparr>
      else s\<lparr>sensorData := calculateVelocity (trimToActualThrow (sensorData s))\<rparr>)"

definition showAnalysis :: "int \<Rightarrow> analyzer \<Rightarrow> analyzer" where
  "showAnalysis now s =
     (if \<not> hasData (sensorData s) then s
      else
        let analysis = calculateAnalysisMetrics (sensorData s)
        in s\<lparr>localStorage := saveThrowToSession now analysis (localStorage s)\<rparr>)"

definition stopRecording :: "int \<Rightarrow> analyzer \<Rightarrow> analyzer" where
  "stopRecording now s =
     showAnalysis now (processData (s\<lparr>isRecording := False, listening := False\<rparr>))"

definition clearData :: "analyzer \<Rightarrow> analyzer" where
  "clearData s = s\<lparr>sensorData := empty_sensor_data\<rparr>"

definition startSensorListening :: "analyzer \<Rightarrow> analyzer" where
  "startSensorListening s =
     s\<lparr>autoStopBuffer := [], lastAutoStopCheck := 0, listening := True\<rparr>"

text \<open>\<open>startRecording\<close> once the permissions are granted.\<close>

definition startRecording :: "int \<Rightarrow> analyzer \<Rightarrow> analyzer" where
  "startRecording now s =
     startSensorListening (clearData (s\<lparr>isRecording := True, startTime := now\<rparr>))"

record accel_reading =
  acc_x :: "real option"
  acc_y :: "real option"
  acc_z :: "real option"

record rotation_reading =
  rot_alpha :: "real option"
  rot_beta :: "real option"
  rot_gamma :: "real option"

record motion_event =
  accelerationIncludingGravity :: "accel_reading option"
  rotationRate :: "rotation_reading option"

definition showAutoStopNotification :: "analyzer \<Rightarrow> analyzer" where
  "showAutoStopNotification s = s\<lparr>autoStopNotifications := Suc (autoStopNotifications s)\<rparr>"

text \<open>The auto-stop check computes in doubles.  The magnitude is
  \<^verbatim>\<open>Math.sqrt(Math.pow(x, 2) + Math.pow(y, 2) + Math.pow(z, 2))\<close> of the reading.\<close>

definition readingMagnitude :: "accel_reading \<Rightarrow> real" where
  "readingMagnitude acc =
     dsqrt (dadd (dadd (dpow2 (or0 (acc_x acc))) (dpow2 (or0 (acc_y acc))))
                 (dpow2 (or0 (acc_z acc))))"

text \<open>The buffer after the new point is pushed and the old ones are filtered out.\<close>

definition recentBuffer :: "accel_reading \<Rightarrow> real \<Rightarrow> buffer_point list \<Rightarrow> buffer_point list" where
  "recentBuffer acc t buf =
     (let totalAccel = readingMagnitude acc
      in filter (\<lambda>point. dsub t (bp_timestamp point) \<le> autoStopDuration)
           (buf @ [\<lparr>bp_acceleration = totalAccel, bp_timestamp = t\<rparr>]))"

definition allCalm :: "buffer_point list \<Rightarrow> bool" where
  "allCalm buf = list_all (\<lambda>point. bp_acceleration point < autoStopThreshold) buf"

definition checkAutoStop :: "int \<Rightarrow> accel_reading \<Rightarrow> real \<Rightarrow> analyzer \<Rightarrow> analyzer" where
  "checkAutoStop now acc t s =
     (let s1 = s\<lparr>autoStopBuffer := recentBuffer acc t (autoStopBuffer s)\<rparr>
      in if real (length (autoStopBuffer s1)) \<ge> ddiv autoStopDuration autoStopCheckInterval
         then (if allCalm (autoStopBuffer s1)
               then showAutoStopNotification (stopRecording now s1)
               else s1)
         else s1)"

definition pushAcceleration :: "accel_reading \<Rightarrow> real \<Rightarrow> sensor_data \<Rightarrow> sensor_data" where
  "pushAcceleration acc t sd =
     (let a = acceleration sd
      in sd\<lparr>acceleration :=
            \<lparr>X = X a @ [or0 (acc_x acc)], timestamps = timestamps a @ [t],
             Y = Y a @ [or0 (acc_y acc)], Z = Z a @ [or0 (acc_z acc)]\<rparr>\<rparr>)"

definition pushRotation :: "rotation_reading \<Rightarrow> real \<Rightarrow> sensor_data \<Rightarrow> sensor_data" where
  "pushRotation rot t sd =
     (let g = gyroscope sd
      in sd\<lparr>gyroscope :=
            \<lparr>X = X g @ [or0 (rot_beta rot) * 180 / pi], timestamps = timestamps g @ [t],
             Y = Y g @ [or0 (rot_gamma rot) * 180 / pi],
             Z = Z g @ [or0 (rot_alpha rot) * 180 / pi]\<rparr>\<rparr>)"

text \<open>The grace period and the pacing of the checks, as the handler tests them.\<close>

definition checkDue :: "real \<Rightarrow> analyzer \<Rightarrow> bool" where
  "checkDue t s \<longleftrightarrow> t > 10.0 \<and> dsub t (lastAutoStopCheck s) \<ge> autoStopCheckInterval"

text \<open>The timestamp of an event that arrives at clock reading \<open>now\<close>:
  \<^verbatim>\<open>(Date.now() - this.startTime) / 1000\<close>, a division of doubles.\<close>

definition eventTimestamp :: "int \<Rightarrow> analyzer \<Rightarrow> real" where
  "eventTimestamp now s = ddiv (real_of_int (now - startTime s)) 1000"

text \<open>The handler of a motion event: it returns at once when no recording runs; the
  rotation sample is pushed after the auto-stop check, whatever the check did.  The
  conversion of the rotation rates to degrees is exact in the model.\<close>

definition deviceMotionHandler :: "int \<Rightarrow> motion_event \<Rightarrow> analyzer \<Rightarrow> analyzer" where
  "deviceMotionHandler now event s =
     (if \<not> isRecording s then s
      else
        let t = eventTimestamp now s;
            s1 = (case accelerationIncludingGravity event of
                    None \<Rightarrow> s
                  | Some acc \<Rightarrow>
                      let s' = s\<lparr>sensorData := pushAcceleration acc t (sensorData s)\<rparr>
                      in if checkDue t s'
                         then (checkAutoStop now acc t s')\<lparr>lastAutoStopCheck := t\<rparr>
                         else s')
        in (case rotationRate event of
              None \<Rightarrow> s1
            | Some rot \<Rightarrow> s1\<lparr>sensorData := pushRotation rot t (sensorData s1)\<rparr>))"




text \<open>A recording as the sequence of motion events delivered to the handler, each with
  the clock reading at its delivery.\<close>

fun runMotion :: "(int \<times> motion_event) list \<Rightarrow> analyzer \<Rightarrow> analyzer" where
  "runMotion [] s = s"
| "runMotion ((now, event) # evs) s = runMotion evs (deviceMotionHandler now event s)"

section \<open>The session summary: TrainingSessionAnalyzer\<close>

text \<open>The summary computes in doubles.  \<^verbatim>\<open>values.reduce((a, b) => a + b, 0)\<close> adds from the
  left, starting at 0.\<close>

definition calculateCV :: "real list \<Rightarrow> real" where
  "calculateCV values =
     (if length values = 0 then 0
      else
        let mean = ddiv (foldl (\<lambda>a b. dadd a b) 0 values) (real (length values));
            variance = ddiv (foldl (\<lambda>a v. dadd a (dpow2 (dsub v mean))) 0 values)
                            (real (length values));
            stdDev = dsqrt variance
        in if mean = 0 then 0 else dmul (ddiv stdDev mean) 100)"

text \<open>The numeric fields of the summary and the trend; the \<open>bestGlide\<close> label is left
  out.  An empty list of throws returns \<^verbatim>\<open>{}\<close>, here \<open>None\<close>.\<close>

record summary =
  avgPushoff :: real
  avgVelocity :: real
  avgStability :: real
  consistency :: real
  improvement :: string

definition averageOf :: "real list \<Rightarrow> real" where
  "averageOf vs = ddiv (foldl (\<lambda>a b. dadd a b) 0 vs) (real (length vs))"

definition stabilityAverage :: "real option throwData list \<Rightarrow> real" where
  "stabilityAverage ts =
     ddiv (foldl (\<lambda>a t. dadd a (or0 (stabilityScore t))) 0 ts) (real (length ts))"

definition calculateSessionSummary :: "real option throwData list \<Rightarrow> summary option" where
  "calculateSessionSummary throws =
     (if length throws = 0 then None
      else
        let pushoffs = map (\<lambda>t. or0 (pushoffStrength t)) throws;
            velocities = map (\<lambda>t. or0 (peakVelocity t)) throws;
            stabilities = map (\<lambda>t. or0 (stabilityScore t)) throws;
            pushoffCV = calculateCV pushoffs;
            velocityCV = calculateCV velocities;
            stabilityCV = calculateCV stabilities;
            avgCV = ddiv (dadd (dadd pushoffCV velocityCV) stabilityCV) 3;
            recentAvg = stabilityAverage (drop (length throws - 3) throws);
            earlyAvg = stabilityAverage (take 3 throws)
        in Some \<lparr>avgPushoff = averageOf pushoffs,
                 avgVelocity = averageOf velocities,
                 avgStability = averageOf stabilities,
                 consistency = max 0 (dsub 100 (dmul avgCV 10)),
                 improvement =
                   (if length throws \<ge> 3
                    then (if recentAvg > dadd earlyAvg 5 then ''Improving''
                          else if recentAvg < dsub earlyAvg 5 then ''Declining''
                          else ''Stable'')
                    else ''Stable'')\<rparr>)"

section \<open>Notions of the specification\<close>

text \<open>The definitions of this section are not translations of code: they state, in the
  words of the specification, what the claims compare the code with, and they name the
  sample inputs at which the theorems are instantiated.\<close>

text \<open>The velocity series after the passes \<open>1, \<dots>, m - 1\<close> of the loop of
  \<^const>\<open>calculateVelocity\<close>.\<close>

definition integrated :: "axes \<Rightarrow> nat \<Rightarrow> series" where
  "integrated a m =
     fold (velocityStep a) [1..<m] \<lparr>X = [0], timestamps = [index_or0 (timestamps a) 0]\<rparr>"

text \<open>The magnitude of sample \<open>i\<close> of a stream whose three arrays have that index.\<close>

definition magnitude :: "axes \<Rightarrow> nat \<Rightarrow> real" where
  "magnitude a i = sqrt ((X a ! i)\<^sup>2 + (Y a ! i)\<^sup>2 + (Z a ! i)\<^sup>2)"

text \<open>A run of 20 consecutive calm samples, none before the scan start \<open>b\<close>, completes at
  index \<open>c\<close>: in terms of the code's magnitude (\<open>calmRun\<close>) and of the real magnitude
  (\<open>settledAt\<close>).\<close>

definition calmRun :: "axes \<Rightarrow> nat \<Rightarrow> nat \<Rightarrow> bool" where
  "calmRun a b c \<longleftrightarrow>
     b + 19 \<le> c \<and> c < length (X a)
     \<and> (\<forall>j\<in>{c - 19..c}. js_lt (totalAccel a j) 1.5)"

definition settledAt :: "axes \<Rightarrow> nat \<Rightarrow> nat \<Rightarrow> bool" where
  "settledAt a b c \<longleftrightarrow>
     b + 19 \<le> c \<and> c < length (X a)
     \<and> (\<forall>j\<in>{c - 19..c}. magnitude a j < 1.5)"

text \<open>Population variance, and the magnitude series of pitch and roll.\<close>

definition populationVariance :: "real list \<Rightarrow> real" where
  "populationVariance vs =
     (if vs = [] then 0
      else (\<Sum>v\<leftarrow>vs. (v - sum_list vs / real (length vs))\<^sup>2) / real (length vs))"

definition magnitudeSeries :: "real list \<Rightarrow> real list \<Rightarrow> real list" where
  "magnitudeSeries pitch roll = map (\<lambda>(p, r). sqrt (p\<^sup>2 + r\<^sup>2)) (zip pitch roll)"

definition magnitudeVariance :: "axes \<Rightarrow> real" where
  "magnitudeVariance gyro = populationVariance (magnitudeSeries (X gyro) (Y gyro))"

definition scoreOfVariance :: "real \<Rightarrow> real" where
  "scoreOfVariance variance = max 0 (min 100 (100 - log 10 (variance + 1) * 20))"

text \<open>The mean of the strictly negative samples after the first \<open>k\<close>, 0 when there is
  none.\<close>

definition meanNegativeAfter :: "nat \<Rightarrow> real list \<Rightarrow> real" where
  "meanNegativeAfter k xs =
     (let negatives = filter (\<lambda>a. a < 0) (drop k xs)
      in if negatives = [] then 0 else sum_list negatives / real (length negatives))"

text \<open>The throws that storage holds.\<close>

definition storedThrows :: "analyzer \<Rightarrow> real option throwData list" where
  "storedThrows s =
     (case curling_session_throws (localStorage s) of None \<Rightarrow> [] | Some ts \<Rightarrow> ts)"

subsection \<open>Sample inputs\<close>

definition emptyStorage :: storage where
  "emptyStorage =
     \<lparr>curling_current_session = None, curling_session_throws = None,
      curling_latest_throw = None\<rparr>"

definition initialAnalyzer :: analyzer where
  "initialAnalyzer =
     \<lparr>isRecording = False, startTime = 0, sensorData = empty_sensor_data,
      autoStopBuffer = [], lastAutoStopCheck = 0, listening = False,
      localStorage = emptyStorage, alerts = [], autoStopNotifications = 0\<rparr>"

definition threeSamples :: axes where
  "threeSamples = \<lparr>X = [1, 2, 3], timestamps = [0, 0.1, 0.2], Y = [0, 0, 0], Z = [0, 0, 0]\<rparr>"

definition oneRotation :: axes where
  "oneRotation = \<lparr>X = [1], timestamps = [0], Y = [1], Z = [0]\<rparr>"

text \<open>A recording of three acceleration samples and no rotation sample; a recording of one
  rotation sample and no acceleration sample; a recording of no sample.\<close>

definition shortRecording :: analyzer where
  "shortRecording =
     initialAnalyzer\<lparr>isRecording := True, listening := True,
       sensorData := empty_sensor_data\<lparr>acceleration := threeSamples\<rparr>\<rparr>"

definition gyroOnlyRecording :: analyzer where
  "gyroOnlyRecording =
     initialAnalyzer\<lparr>isRecording := True, listening := True,
       sensorData := empty_sensor_data\<lparr>gyroscope := oneRotation\<rparr>\<rparr>"

definition emptyRecording :: analyzer where
  "emptyRecording = initialAnalyzer\<lparr>isRecording := True, listening := True\<rparr>"

text \<open>Eight samples at rest, a push of magnitude 3 at index 8, sixty samples at rest.\<close>

definition pushThenSettle :: sensor_data where
  "pushThenSettle =
     empty_sensor_data\<lparr>acceleration :=
       \<lparr>X = replicate 8 0 @ [3] @ replicate 60 0,
        timestamps = map (\<lambda>i. real i / 10) [0..<69],
        Y = replicate 69 0, Z = replicate 69 0\<rparr>\<rparr>"

text \<open>A constant forward acceleration of 2 sampled every half second.\<close>

definition constantPush :: sensor_data where
  "constantPush =
     empty_sensor_data\<lparr>acceleration :=
       \<lparr>X = [2, 2, 2], timestamps = [0, 0.5, 1], Y = [0, 0, 0], Z = [0, 0, 0]\<rparr>\<rparr>"

text \<open>The scenario of the specification for the deceleration rate.\<close>

definition slideSample :: sensor_data where
  "slideSample =
     empty_sensor_data\<lparr>acceleration :=
       \<lparr>X = [5, 5, -1, -2, -1], timestamps = [0, 1, 2, 3, 4],
        Y = [0, 0, 0, 0, 0], Z = [0, 0, 0, 0, 0]\<rparr>\<rparr>"

text \<open>No rotation at all, and a rotation whose magnitudes 0 and 6 have variance 9.\<close>

definition gyroSteady :: sensor_data where
  "gyroSteady = empty_sensor_data"

definition gyroWobble :: sensor_data where
  "gyroWobble =
     empty_sensor_data\<lparr>gyroscope :=
       \<lparr>X = [0, 6], timestamps = [0, 1], Y = [0, 0], Z = [0, 0]\<rparr>\<rparr>"

subsection \<open>The auto-stop detector of the specification\<close>

text \<open>The detector as the specification words it: a state that holds whether the trigger
  is still armed, the start of the recording, the time of the last check, the sliding
  buffer of (magnitude, timestamp) entries and the number of signals raised.\<close>

record detector =
  armed :: bool
  origin :: int
  lastCheck :: real
  window :: "buffer_point list"
  raised :: nat

text \<open>The time of a sample in seconds since the start, and its magnitude, in doubles.\<close>

definition sampleTime :: "int \<Rightarrow> detector \<Rightarrow> real" where
  "sampleTime now d = ddiv (real_of_int (now - origin d)) 1000"

definition sampleMagnitude :: "accel_reading \<Rightarrow> real" where
  "sampleMagnitude acc =
     dsqrt (dadd (dadd (dpow2 (or0 (acc_x acc))) (dpow2 (or0 (acc_y acc))))
                 (dpow2 (or0 (acc_z acc))))"

text \<open>A check is made on an acceleration sample while the trigger is armed, when the
  timestamp exceeds 10.0 s and lies at least 0.5 s after the last check.\<close>

definition checkMade :: "int \<Rightarrow> motion_event \<Rightarrow> detector \<Rightarrow> bool" where
  "checkMade now event d \<longleftrightarrow>
     armed d \<and> accelerationIncludingGravity event \<noteq> None
     \<and> sampleTime now d > 10.0 \<and> dsub (sampleTime now d) (lastCheck d) \<ge> 0.5"

text \<open>The check adds the sample to the buffer and evicts the entries older than 3.0 s.\<close>

definition evicted :: "int \<Rightarrow> accel_reading \<Rightarrow> detector \<Rightarrow> buffer_point list" where
  "evicted now acc d =
     filter (\<lambda>p. dsub (sampleTime now d) (bp_timestamp p) \<le> 3.0)
       (window d @ [\<lparr>bp_acceleration = sampleMagnitude acc, bp_timestamp = sampleTime now d\<rparr>])"

text \<open>The signal is due when at least 6 entries remain and every one is below 1.5.\<close>

definition signalDue :: "buffer_point list \<Rightarrow> bool" where
  "signalDue entries \<longleftrightarrow>
     length entries \<ge> 6 \<and> list_all (\<lambda>p. bp_acceleration p < 1.5) entries"

text \<open>One observation: without a check nothing changes; a check records its time and
  the buffer, and a due signal is raised once and disarms the trigger.\<close>

definition observe :: "int \<Rightarrow> motion_event \<Rightarrow> detector \<Rightarrow> detector" where
  "observe now event d =
     (case accelerationIncludingGravity event of
        None \<Rightarrow> d
      | Some acc \<Rightarrow>
          if checkMade now event d
          then (let entries = evicted now acc d
                in if signalDue entries
                   then d\<lparr>armed := False, lastCheck := sampleTime now d, window := entries,
                          raised := Suc (raised d)\<rparr>
                   else d\<lparr>lastCheck := sampleTime now d, window := entries\<rparr>)
          else d)"

fun observeAll :: "(int \<times> motion_event) list \<Rightarrow> detector \<Rightarrow> detector" where
  "observeAll [] d = d"
| "observeAll ((now, event) # evs) d = observeAll evs (observe now event d)"

text \<open>The detector that a state of the recorder holds.\<close>

definition detectorOf :: "analyzer \<Rightarrow> detector" where
  "detectorOf s =
     \<lparr>armed = isRecording s, origin = startTime s, lastCheck = lastAutoStopCheck s,
      window = autoStopBuffer s, raised = autoStopNotifications s\<rparr>"

text \<open>A calm sample (magnitude 1, the \<open>y\<close> reading missing) and a sample in motion
  (magnitude 5); a recording of calm samples every half second from 10.5 s on.\<close>

definition calmEvent :: motion_event where
  "calmEvent =
     \<lparr>accelerationIncludingGravity = Some \<lparr>acc_x = Some 0, acc_y = None, acc_z = Some 1\<rparr>,
      rotationRate = None\<rparr>"

definition movingEvent :: motion_event where
  "movingEvent =
     \<lparr>accelerationIncludingGravity = Some \<lparr>acc_x = Some 3, acc_y = Some 4, acc_z = Some 0\<rparr>,
      rotationRate = None\<rparr>"

definition fiveCalm :: "(int \<times> motion_event) list" where
  "fiveCalm =
     [(10500, calmEvent), (11000, calmEvent), (11500, calmEvent), (12000, calmEvent),
      (12500, calmEvent)]"

subsection \<open>The session summary\<close>

text \<open>The coefficient of variation as the specification words it: the standard deviation
  over the mean, in percent, 0 when the mean is 0; sums run from the left and every
  operation is rounded.\<close>

definition sumOf :: "real list \<Rightarrow> real" where
  "sumOf vs = foldl dadd 0 vs"

definition meanOf :: "real list \<Rightarrow> real" where
  "meanOf vs = ddiv (sumOf vs) (real (length vs))"

definition standardDeviation :: "real list \<Rightarrow> real" where
  "standardDeviation vs =
     dsqrt (ddiv (sumOf (map (\<lambda>v. dpow2 (dsub v (meanOf vs))) vs)) (real (length vs)))"

definition coefficientOfVariation :: "real list \<Rightarrow> real" where
  "coefficientOfVariation vs =
     (if meanOf vs = 0 then 0 else dmul (ddiv (standardDeviation vs) (meanOf vs)) 100)"

text \<open>A sequence is steady when all its values are one value and the computed mean is
  that value.\<close>

definition steady :: "real list \<Rightarrow> bool" where
  "steady vs \<longleftrightarrow> (\<forall>v\<in>set vs. v = meanOf vs)"

text \<open>Stored throws: one of push-off 3, velocity 2 and stability 80, and one whose push-off
  is the double that is written 0.1.\<close>

definition steadyThrow :: "real option throwData" where
  "steadyThrow =
     \<lparr>pushoffStrength = Some 3, peakVelocity = Some 2, slideDuration = Some 5,
      decelRate = Some 1, stabilityScore = Some 80, glideEfficiency = ''Good'',
      throw_id = 1, timestamp = 1, sessionId = 1\<rparr>"

definition tenth :: real where
  "tenth = 3602879701896397 / 2 ^ 55"

definition tenthThrow :: "real option throwData" where
  "tenthThrow =
     \<lparr>pushoffStrength = Some tenth, peakVelocity = Some 2, slideDuration = Some 5,
      decelRate = Some 1, stabilityScore = Some 80, glideEfficiency = ''Good'',
      throw_id = 1, timestamp = 1, sessionId = 1\<rparr>"

subsection \<open>Aligned streams\<close>

text \<open>The four arrays of a stream have one length, and so for both streams of the sensor
  data.\<close>

definition aligned :: "axes \<Rightarrow> bool" where
  "aligned a \<longleftrightarrow>
     length (Y a) = length (X a) \<and> length (Z a) = length (X a)
     \<and> length (timestamps a) = length (X a)"

definition alignedData :: "sensor_data \<Rightarrow> bool" where
  "alignedData sd \<longleftrightarrow> aligned (acceleration sd) \<and> aligned (gyroscope sd)"

section \<open>Arithmetic of the reductions\<close>

lemma foldl_plus_sum_list: "foldl (\<lambda>a b. a + b) (c::real) xs = c + sum_list xs"
  by (induction xs arbitrary: c) (simp_all add: add.assoc)

lemma foldl_plus_map_sum_list:
  "foldl (\<lambda>a v. a + f v) (c::real) xs = c + sum_list (map f xs)"
  by (induction xs arbitrary: c) (simp_all add: add.assoc)

lemma calculateVariance_populationVariance: "calculateVariance vs = populationVariance vs"
  by (simp add: calculateVariance_def populationVariance_def foldl_plus_sum_list
      foldl_plus_map_sum_list Let_def)

lemma populationVariance_nonneg: "0 \<le> populationVariance vs"
  by (auto simp: populationVariance_def intro!: divide_nonneg_nonneg sum_list_nonneg)

lemma scoreOfVariance_antimono:
  assumes "0 \<le> v" "v \<le> w"
  shows "scoreOfVariance w \<le> scoreOfVariance v"
proof -
  have "log 10 (v + 1) \<le> log 10 (w + 1)"
    using assms by simp
  then show ?thesis by (simp add: scoreOfVariance_def)
qed

lemma floor_fifth: "nat \<lfloor>0.2 * real n\<rfloor> = n div 5"
proof -
  have "0.2 * real n = real n / real 5" by simp
  then have "\<lfloor>0.2 * real n\<rfloor> = int (n div 5)"
    by (simp only: floor_divide_of_nat_eq)
  then show ?thesis by simp
qed

lemma pushoffPeriod_div: "pushoffPeriod accel = length (X accel) div 5"
  using floor_fifth [of "length (X accel)"] by (simp add: pushoffPeriod_def mult.commute)

lemma sqrt36: "sqrt 36 = 6"
  by (rule real_sqrt_unique) simp_all

lemma slice_length_le: "length (slice s e xs) \<le> length xs"
  by (simp add: slice_def)

lemma slice_nonempty: "s < length xs \<Longrightarrow> s < e \<Longrightarrow> slice s e xs \<noteq> []"
  by (simp add: slice_def)

section \<open>The trimming loops\<close>

text \<open>The loops are unfolded one pass at a time, by hand.\<close>

declare findStart.simps [simp del] findEnd.simps [simp del]

lemma findStart_first:
  assumes "i \<le> f" "f < length (X a)" "js_gt (totalAccel a f) accelThreshold"
    and "\<forall>j. i \<le> j \<and> j < f \<longrightarrow> \<not> js_gt (totalAccel a j) accelThreshold"
  shows "findStart a i = nat (max 0 (int f - 5))"
  using assms
proof (induction a i rule: findStart.induct)
  case (1 accel i)
  show ?case
  proof (cases "i = f")
    case True
    with "1.prems" show ?thesis by (subst findStart.simps) simp
  next
    case False
    with "1.prems" have lt: "i < f" and no: "\<not> js_gt (totalAccel accel i) accelThreshold"
      by auto
    from lt "1.prems" have "i < length (X accel)" by simp
    moreover have "findStart accel (Suc i) = nat (max 0 (int f - 5))"
      using "1.IH" [OF \<open>i < length (X accel)\<close> no] lt "1.prems" by auto
    ultimately show ?thesis using no by (subst findStart.simps) simp
  qed
qed

lemma findStart_none:
  assumes "\<forall>j. i \<le> j \<and> j < length (X a) \<longrightarrow> \<not> js_gt (totalAccel a j) accelThreshold"
  shows "findStart a i = 0"
  using assms
proof (induction a i rule: findStart.induct)
  case (1 accel i)
  show ?case
  proof (cases "i < length (X accel)")
    case True
    with "1.prems" have no: "\<not> js_gt (totalAccel accel i) accelThreshold" by auto
    have "findStart accel (Suc i) = 0"
      using "1.IH" [OF True no] "1.prems" by auto
    with True no show ?thesis by (subst findStart.simps) simp
  next
    case False
    then show ?thesis by (subst findStart.simps) simp
  qed
qed

lemma findStart_less:
  assumes "X a \<noteq> []"
  shows "findStart a i < length (X a)"
  using assms
proof (induction a i rule: findStart.induct)
  case (1 accel i)
  show ?case
  proof (cases "i < length (X accel)")
    case True
    show ?thesis
    proof (cases "js_gt (totalAccel accel i) accelThreshold")
      case yes: True
      with True show ?thesis by (subst findStart.simps) auto
    next
      case no: False
      with True "1.IH" [OF True no] "1.prems" show ?thesis
        by (subst findStart.simps) simp
    qed
  next
    case False
    with "1.prems" show ?thesis by (subst findStart.simps) simp
  qed
qed

text \<open>The invariant of the second loop: the counter is below 20 and counts calm samples
  that end just before \<open>i\<close>; the run under way began at \<open>i - k\<close>.\<close>

lemma findEnd_invariant:
  assumes "k < 20" "k \<le> i"
    and "\<forall>j. i - k \<le> j \<and> j < i \<longrightarrow> js_lt (totalAccel a j) 1.5"
  shows "(\<forall>c. calmRun a (i - k) c \<and> (\<forall>c'<c. \<not> calmRun a (i - k) c')
            \<longrightarrow> findEnd a i k = nat (int c - 20 + 10))
         \<and> ((\<forall>c. \<not> calmRun a (i - k) c) \<longrightarrow> findEnd a i k = length (X a) - 1)"
  using assms
proof (induction a i k rule: findEnd.induct)
  case (1 accel i calmCount)
  let ?b = "i - calmCount"
  show ?case
  proof (cases "i < length (X accel)")
    case False
    have none: "\<not> calmRun accel ?b c" for c
      using False "1.prems" by (auto simp: calmRun_def)
    have "findEnd accel i calmCount = length (X accel) - 1"
      using False by (subst findEnd.simps) simp
    with none show ?thesis by simp
  next
    case True
    show ?thesis
    proof (cases "js_lt (totalAccel accel i) 1.5")
      case calm: True
      show ?thesis
      proof (cases "Suc calmCount \<ge> settlePeriod")
        case full: True
        with "1.prems" have k: "calmCount = 19" by (simp add: settlePeriod_def)
        have val: "findEnd accel i calmCount = nat (int i - 20 + 10)"
          using True calm full by (subst findEnd.simps) (simp add: settlePeriod_def)
        have here: "calmRun accel ?b i"
          unfolding calmRun_def
        proof (intro conjI ballI)
          show "?b + 19 \<le> i" using k "1.prems" by simp
          show "i < length (X accel)" by (rule True)
          fix j assume "j \<in> {i - 19..i}"
          then show "js_lt (totalAccel accel j) 1.5"
            using calm "1.prems"(3) k by (cases "j = i") auto
        qed
        have least: "i \<le> c" if "calmRun accel ?b c" for c
          using that k "1.prems" by (auto simp: calmRun_def)
        have "c = i" if "calmRun accel ?b c" "\<forall>c'<c. \<not> calmRun accel ?b c'" for c
          using that here least [OF that(1)] by (metis le_neq_implies_less)
        with val here show ?thesis by auto
      next
        case more: False
        have pre: "Suc calmCount < 20" "Suc calmCount \<le> Suc i"
          using more "1.prems" by (simp_all add: settlePeriod_def)
        have run: "\<forall>j. Suc i - Suc calmCount \<le> j \<and> j < Suc i \<longrightarrow> js_lt (totalAccel accel j) 1.5"
          using calm "1.prems"(3) by (auto simp: less_Suc_eq)
        have val: "findEnd accel i calmCount = findEnd accel (Suc i) (Suc calmCount)"
          using True calm more by (subst findEnd.simps) simp
        show ?thesis
          using "1.IH"(1) [OF True calm more pre run] val by simp
      qed
    next
      case busy: False
      have val: "findEnd accel i calmCount = findEnd accel (Suc i) 0"
        using True busy by (subst findEnd.simps) simp
      have same: "calmRun accel ?b c \<longleftrightarrow> calmRun accel (Suc i - 0) c" for c
      proof
        assume r: "calmRun accel ?b c"
        then have "\<not> (c - 19 \<le> i \<and> i \<le> c)" using busy by (auto simp: calmRun_def)
        moreover from r "1.prems" have "i \<le> c" by (auto simp: calmRun_def)
        ultimately have "Suc i + 19 \<le> c" by arith
        with r show "calmRun accel (Suc i - 0) c" by (simp add: calmRun_def)
      next
        assume "calmRun accel (Suc i - 0) c"
        then show "calmRun accel ?b c" by (auto simp: calmRun_def)
      qed
      have "0 < (20::nat)" "(0::nat) \<le> Suc i"
        "\<forall>j. Suc i - 0 \<le> j \<and> j < Suc i \<longrightarrow> js_lt (totalAccel accel j) 1.5"
        by auto
      from "1.IH"(2) [OF True busy this] val same show ?thesis by simp
    qed
  qed
qed

text \<open>The interval is never empty and lies within the stream.\<close>

lemma findEnd_lower:
  assumes "k + b \<le> i" "s \<le> b" "s < length (X a)"
  shows "s \<le> findEnd a i k"
  using assms
proof (induction a i k rule: findEnd.induct)
  case (1 accel i calmCount)
  show ?case
  proof (cases "i < length (X accel)")
    case False
    with "1.prems" show ?thesis by (subst findEnd.simps) simp
  next
    case True
    show ?thesis
    proof (cases "js_lt (totalAccel accel i) 1.5")
      case calm: True
      show ?thesis
      proof (cases "Suc calmCount \<ge> settlePeriod")
        case full: True
        with True calm "1.prems" show ?thesis
          by (subst findEnd.simps) (simp add: settlePeriod_def)
      next
        case more: False
        have "s \<le> findEnd accel (Suc i) (Suc calmCount)"
          using "1.IH"(1) [OF True calm more] "1.prems" by simp
        with True calm more show ?thesis by (subst findEnd.simps) simp
      qed
    next
      case busy: False
      have "s \<le> findEnd accel (Suc i) 0"
        using "1.IH"(2) [OF True busy] "1.prems" by simp
      with True busy show ?thesis by (subst findEnd.simps) simp
    qed
  qed
qed

lemma findEnd_upper:
  assumes "X a \<noteq> []"
  shows "findEnd a i k < length (X a)"
  using assms
proof (induction a i k rule: findEnd.induct)
  case (1 accel i calmCount)
  show ?case
  proof (cases "i < length (X accel)")
    case False
    with "1.prems" show ?thesis by (subst findEnd.simps) simp
  next
    case True
    show ?thesis
    proof (cases "js_lt (totalAccel accel i) 1.5")
      case calm: True
      show ?thesis
      proof (cases "Suc calmCount \<ge> settlePeriod")
        case full: True
        with True calm "1.prems" show ?thesis
          by (subst findEnd.simps) (simp add: settlePeriod_def)
      next
        case more: False
        with True calm "1.IH"(1) [OF True calm more] "1.prems" show ?thesis
          by (subst findEnd.simps) simp
      qed
    next
      case busy: False
      with True "1.IH"(2) [OF True busy] "1.prems" show ?thesis
        by (subst findEnd.simps) simp
    qed
  qed
qed

lemma totalAccel_magnitude:
  assumes "length (Y a) = length (X a)" "length (Z a) = length (X a)" "i < length (X a)"
  shows "totalAccel a i = Num (magnitude a i)"
  using assms by (simp add: totalAccel_def magnitude_def)

lemma calmRun_settledAt:
  assumes "length (Y a) = length (X a)" "length (Z a) = length (X a)"
  shows "calmRun a b c \<longleftrightarrow> settledAt a b c"
proof -
  have "js_lt (totalAccel a j) 1.5 \<longleftrightarrow> magnitude a j < 1.5" if "j < length (X a)" for j
    using that assms by (simp add: totalAccel_magnitude)
  then show ?thesis
    unfolding calmRun_def settledAt_def by auto
qed

lemma trimStart_less: "X a \<noteq> [] \<Longrightarrow> trimStart a < length (X a)"
  by (simp add: trimStart_def findStart_less)

lemma trimStart_le_trimEnd: "X a \<noteq> [] \<Longrightarrow> trimStart a \<le> trimEnd a"
  unfolding trimEnd_def
  by (rule findEnd_lower [where b = "trimStart a + 30"]) (simp_all add: trimStart_less)

lemma trimEnd_less: "X a \<noteq> [] \<Longrightarrow> trimEnd a < length (X a)"
  by (simp add: trimEnd_def findEnd_upper)

lemma trim_acceleration_X:
  "X (acceleration sd) \<noteq> [] \<Longrightarrow>
   X (acceleration (trimToActualThrow sd)) =
     slice (trimStart (acceleration sd)) (trimEnd (acceleration sd) + 1) (X (acceleration sd))"
  by (simp add: trimToActualThrow_def Let_def)

text \<open>
  C2.  For a capture with a non-empty acceleration stream (the three axis arrays of one
  length), the trimmer selects the interval from \<open>trimStart\<close> to \<open>trimEnd\<close>:
  \<open>trimStart\<close> is \<open>max 0 (i - 5)\<close> for the first index \<open>i\<close> whose magnitude exceeds 2.0, and 0
  when no magnitude exceeds 2.0, in particular when every magnitude is below 2.0;
  scanning from \<open>trimStart + 30\<close>, \<open>trimEnd\<close> is \<open>c - 20 + 10\<close> for the first index \<open>c\<close> at
  which a run of 20 consecutive samples of magnitude below 1.5 completes, and the last
  index of the stream when no run completes.  The acceleration is sliced to that interval,
  which is non-empty and within the stream.
\<close>

theorem trim_interval:
  assumes "a = acceleration sd"
    and "X a \<noteq> []" and "length (Y a) = length (X a)" and "length (Z a) = length (X a)"
  shows "(\<forall>i. i < length (X a) \<and> magnitude a i > 2.0 \<and> (\<forall>j<i. \<not> magnitude a j > 2.0)
             \<longrightarrow> trimStart a = nat (max 0 (int i - 5)))
       \<and> ((\<forall>i<length (X a). \<not> magnitude a i > 2.0) \<longrightarrow> trimStart a = 0)
       \<and> ((\<forall>i<length (X a). magnitude a i < 2.0) \<longrightarrow> trimStart a = 0)
       \<and> (\<forall>c. settledAt a (trimStart a + 30) c \<and> (\<forall>c'<c. \<not> settledAt a (trimStart a + 30) c')
             \<longrightarrow> trimEnd a = nat (int c - 20 + 10))
       \<and> ((\<forall>c. \<not> settledAt a (trimStart a + 30) c) \<longrightarrow> trimEnd a = length (X a) - 1)
       \<and> X (acceleration (trimToActualThrow sd)) = slice (trimStart a) (trimEnd a + 1) (X a)
       \<and> trimStart a \<le> trimEnd a \<and> trimEnd a < length (X a)"
proof -
  have mag: "js_gt (totalAccel a j) accelThreshold \<longleftrightarrow> magnitude a j > 2.0"
    if "j < length (X a)" for j
    using that assms(3,4) by (simp add: totalAccel_magnitude accelThreshold_def)
  have first: "trimStart a = nat (max 0 (int i - 5))"
    if "i < length (X a) \<and> magnitude a i > 2.0 \<and> (\<forall>j<i. \<not> magnitude a j > 2.0)" for i
    unfolding trimStart_def
  proof (rule findStart_first)
    show "0 \<le> i" by simp
    show "i < length (X a)" using that by simp
    show "js_gt (totalAccel a i) accelThreshold" using that mag by simp
    show "\<forall>j. 0 \<le> j \<and> j < i \<longrightarrow> \<not> js_gt (totalAccel a j) accelThreshold"
      using that mag by auto
  qed
  have none: "trimStart a = 0" if "\<forall>i<length (X a). \<not> magnitude a i > 2.0"
    unfolding trimStart_def
    by (rule findStart_none) (use that mag in auto)
  have below: "trimStart a = 0" if "\<forall>i<length (X a). magnitude a i < 2.0"
    by (rule none) (use that in fastforce)
  have inv: "(\<forall>c. calmRun a (trimStart a + 30 - 0) c \<and> (\<forall>c'<c. \<not> calmRun a (trimStart a + 30 - 0) c')
            \<longrightarrow> findEnd a (trimStart a + 30) 0 = nat (int c - 20 + 10))
         \<and> ((\<forall>c. \<not> calmRun a (trimStart a + 30 - 0) c)
            \<longrightarrow> findEnd a (trimStart a + 30) 0 = length (X a) - 1)"
    by (rule findEnd_invariant) auto
  have settle: "trimEnd a = nat (int c - 20 + 10)"
    if "settledAt a (trimStart a + 30) c \<and> (\<forall>c'<c. \<not> settledAt a (trimStart a + 30) c')" for c
    using inv that by (simp add: trimEnd_def calmRun_settledAt [OF assms(3,4)])
  have tail: "trimEnd a = length (X a) - 1" if "\<forall>c. \<not> settledAt a (trimStart a + 30) c"
    using inv that by (simp add: trimEnd_def calmRun_settledAt [OF assms(3,4)])
  have sl: "X (acceleration (trimToActualThrow sd)) = slice (trimStart a) (trimEnd a + 1) (X a)"
    using assms(1,2) by (simp add: trim_acceleration_X)
  show ?thesis
    using first none below settle tail sl trimStart_le_trimEnd [OF assms(2)] trimEnd_less [OF assms(2)]
    by blast
qed

lemma pushThenSettle_acceleration:
  "acceleration pushThenSettle =
     \<lparr>X = replicate 8 0 @ [3] @ replicate 60 0,
      timestamps = map (\<lambda>i. real i / 10) [0..<69],
      Y = replicate 69 0, Z = replicate 69 0\<rparr>"
  by (simp add: pushThenSettle_def)

lemma pushThenSettle_magnitude:
  assumes "j < 69"
  shows "magnitude (acceleration pushThenSettle) j = (if j = 8 then 3 else 0)"
proof -
  have "(replicate 8 0 @ [3] @ replicate 60 (0::real)) ! j = (if j = 8 then 3 else 0)"
    using assms by (auto simp: nth_append nth_Cons')
  then show ?thesis
    using assms by (simp add: magnitude_def pushThenSettle_acceleration)
qed

text \<open>At the sample capture the first magnitude above 2.0 is at index 8 and the first run of
  20 calm samples from index 33 completes at index 52.\<close>

theorem trim_interval_witness:
  "trimStart (acceleration pushThenSettle) = 3 \<and> trimEnd (acceleration pushThenSettle) = 42"
proof -
  let ?a = "acceleration pushThenSettle"
  have len: "length (X ?a) = 69" "length (Y ?a) = 69" "length (Z ?a) = 69"
    by (simp_all add: pushThenSettle_acceleration)
  have ne: "X ?a \<noteq> []" using len(1) by auto
  note T = trim_interval [OF refl ne, unfolded len, OF refl refl]
  have start: "trimStart ?a = 3"
  proof -
    have "8 < (69::nat) \<and> magnitude ?a 8 > 2.0 \<and> (\<forall>j<8. \<not> magnitude ?a j > 2.0)"
      by (simp add: pushThenSettle_magnitude)
    with T have "trimStart ?a = nat (max 0 (int 8 - 5))" by blast
    then show ?thesis by simp
  qed
  have run: "settledAt ?a (3 + 30) 52"
    by (auto simp: settledAt_def len pushThenSettle_magnitude)
  have first: "\<forall>c'<52. \<not> settledAt ?a (3 + 30) c'"
    by (auto simp: settledAt_def)
  from T run first have "trimEnd ?a = nat (int 52 - 20 + 10)"
    unfolding start by blast
  with start show ?thesis by simp
qed

section \<open>The stability score\<close>

lemma pitchRoll_magnitudeSeries:
  assumes "length (Y gyro) = length (X gyro)"
  shows "pitchRoll gyro = magnitudeSeries (X gyro) (Y gyro)"
  using assms
  by (intro nth_equalityI) (simp_all add: pitchRoll_def magnitudeSeries_def index_or0_def)

lemma stabilityScore_metrics:
  "stabilityScore (calculateAnalysisMetrics sd) = Num (stabilityScoreOf (gyroscope sd))"
  by (simp add: calculateAnalysisMetrics_def Let_def)

lemma stabilityScoreOf_scoreOfVariance:
  assumes "length (Y gyro) = length (X gyro)"
  shows "stabilityScoreOf gyro = scoreOfVariance (magnitudeVariance gyro)"
  by (simp add: stabilityScoreOf_def scoreOfVariance_def magnitudeVariance_def
      calculateVariance_populationVariance pitchRoll_magnitudeSeries [OF assms])

lemma magnitudeVariance_nonneg: "0 \<le> magnitudeVariance gyro"
  by (simp add: magnitudeVariance_def populationVariance_nonneg)

text \<open>
  C4.  For pitch and roll arrays of one length, the stability score of the metrics is
  \<open>max 0 (min 100 (100 - log10 (variance + 1) * 20))\<close>, where \<open>variance\<close> is the population
  variance of the magnitudes \<open>sqrt (pitch[i]^2 + roll[i]^2)\<close>.  Of two inputs, the one with
  the larger variance has a score no greater than the other, and every score lies between
  0 and 100.
\<close>

theorem stabilityScore_log_variance:
  assumes "length (Y (gyroscope sd)) = length (X (gyroscope sd))"
    and "length (Y (gyroscope sd')) = length (X (gyroscope sd'))"
  shows "stabilityScore (calculateAnalysisMetrics sd) =
           Num (max 0 (min 100 (100 - log 10 (magnitudeVariance (gyroscope sd) + 1) * 20)))
       \<and> stabilityScore (calculateAnalysisMetrics sd) =
           Num (scoreOfVariance (magnitudeVariance (gyroscope sd)))
       \<and> stabilityScore (calculateAnalysisMetrics sd') =
           Num (scoreOfVariance (magnitudeVariance (gyroscope sd')))
       \<and> (magnitudeVariance (gyroscope sd) \<le> magnitudeVariance (gyroscope sd')
            \<longrightarrow> scoreOfVariance (magnitudeVariance (gyroscope sd'))
                 \<le> scoreOfVariance (magnitudeVariance (gyroscope sd)))
       \<and> 0 \<le> scoreOfVariance (magnitudeVariance (gyroscope sd))
       \<and> scoreOfVariance (magnitudeVariance (gyroscope sd)) \<le> 100"
proof -
  have eq: "stabilityScore (calculateAnalysisMetrics sd) =
      Num (scoreOfVariance (magnitudeVariance (gyroscope sd)))"
    by (simp add: stabilityScore_metrics stabilityScoreOf_scoreOfVariance [OF assms(1)])
  have eq': "stabilityScore (calculateAnalysisMetrics sd') =
      Num (scoreOfVariance (magnitudeVariance (gyroscope sd')))"
    by (simp add: stabilityScore_metrics stabilityScoreOf_scoreOfVariance [OF assms(2)])
  have formula: "stabilityScore (calculateAnalysisMetrics sd) =
      Num (max 0 (min 100 (100 - log 10 (magnitudeVariance (gyroscope sd) + 1) * 20)))"
    using eq by (simp add: scoreOfVariance_def)
  have mono: "scoreOfVariance (magnitudeVariance (gyroscope sd'))
        \<le> scoreOfVariance (magnitudeVariance (gyroscope sd))"
    if "magnitudeVariance (gyroscope sd) \<le> magnitudeVariance (gyroscope sd')"
    by (rule scoreOfVariance_antimono [OF magnitudeVariance_nonneg that])
  have bounds: "0 \<le> scoreOfVariance (magnitudeVariance (gyroscope sd))"
    "scoreOfVariance (magnitudeVariance (gyroscope sd)) \<le> 100"
    by (simp_all add: scoreOfVariance_def)
  show ?thesis
    using formula eq eq' mono bounds by blast
qed

lemma gyroWobble_variance: "magnitudeVariance (gyroscope gyroWobble) = 9"
  by (simp add: gyroWobble_def magnitudeVariance_def populationVariance_def
      magnitudeSeries_def sqrt36 power2_eq_square)

lemma gyroSteady_variance: "magnitudeVariance (gyroscope gyroSteady) = 0"
  by (simp add: gyroSteady_def empty_sensor_data_def empty_axes_def magnitudeVariance_def
      populationVariance_def magnitudeSeries_def)

text \<open>No rotation scores 100, the rotation of variance 9 scores 80.\<close>

theorem stabilityScore_log_variance_witness:
  "stabilityScore (calculateAnalysisMetrics gyroSteady) = Num 100
   \<and> stabilityScore (calculateAnalysisMetrics gyroWobble) = Num 80
   \<and> magnitudeVariance (gyroscope gyroSteady) \<le> magnitudeVariance (gyroscope gyroWobble)
   \<and> scoreOfVariance (magnitudeVariance (gyroscope gyroWobble))
        \<le> scoreOfVariance (magnitudeVariance (gyroscope gyroSteady))"
proof -
  have steady: "length (Y (gyroscope gyroSteady)) = length (X (gyroscope gyroSteady))"
    by (simp add: gyroSteady_def empty_sensor_data_def empty_axes_def)
  have wobble: "length (Y (gyroscope gyroWobble)) = length (X (gyroscope gyroWobble))"
    by (simp add: gyroWobble_def)
  have le: "magnitudeVariance (gyroscope gyroSteady) \<le> magnitudeVariance (gyroscope gyroWobble)"
    by (simp add: gyroWobble_variance gyroSteady_variance)
  have "scoreOfVariance 0 = 100" "scoreOfVariance 9 = 80"
    by (simp_all add: scoreOfVariance_def)
  with stabilityScore_log_variance [OF steady wobble] le show ?thesis
    by (simp add: gyroWobble_variance gyroSteady_variance)
qed

section \<open>The deceleration rate and the glide label\<close>

lemma rawDecelRate_mean:
  "rawDecelRate accel = meanNegativeAfter (nat \<lfloor>0.2 * real (length (X accel))\<rfloor>) (X accel)"
  by (simp add: rawDecelRate_def meanNegativeAfter_def pushoffPeriod_def slice_from_def
      foldl_plus_sum_list Let_def mult.commute)

lemma slideSample_rawDecelRate: "rawDecelRate (acceleration slideSample) = - (4 / 3)"
  by (simp add: rawDecelRate_mean floor_fifth slideSample_def meanNegativeAfter_def)

text \<open>
  C5.  \<open>decelRate\<close> is the absolute value of the mean of the strictly negative forward
  accelerations after the first \<open>floor (0.2 * n)\<close> samples, 0 when there is none.  The glide
  label is read from that absolute value, the high-drag test first: above 2.0
  ``Poor (High Drag)'', below 0.5 ``Excellent'', below 1.0 ``Very Good'', otherwise
  ``Good''.  For the series 5, 5, -1, -2, -1 the rate is 4/3, which is 1.333 to three
  decimals, and the label is ``Good''.
\<close>

theorem decelRate_glideEfficiency:
  "decelRate (calculateAnalysisMetrics sd) =
     Num \<bar>meanNegativeAfter (nat \<lfloor>0.2 * real (length (X (acceleration sd)))\<rfloor>)
            (X (acceleration sd))\<bar>
   \<and> glideEfficiency (calculateAnalysisMetrics sd) =
     (let d = \<bar>meanNegativeAfter (nat \<lfloor>0.2 * real (length (X (acceleration sd)))\<rfloor>)
                (X (acceleration sd))\<bar>
      in if d > 2.0 then ''Poor (High Drag)''
         else if d < 0.5 then ''Excellent''
         else if d < 1.0 then ''Very Good''
         else ''Good'')
   \<and> X (acceleration slideSample) = [5, 5, -1, -2, -1]
   \<and> decelRate (calculateAnalysisMetrics slideSample) = Num (4 / 3)
   \<and> \<bar>4 / 3 - 1.333\<bar> < (0.0005 :: real)
   \<and> glideEfficiency (calculateAnalysisMetrics slideSample) = ''Good''"
proof -
  have general: "decelRate (calculateAnalysisMetrics sd) =
      Num \<bar>meanNegativeAfter (nat \<lfloor>0.2 * real (length (X (acceleration sd)))\<rfloor>)
             (X (acceleration sd))\<bar>"
    by (simp add: calculateAnalysisMetrics_def Let_def rawDecelRate_mean)
  have label: "glideEfficiency (calculateAnalysisMetrics sd) =
     (let d = \<bar>meanNegativeAfter (nat \<lfloor>0.2 * real (length (X (acceleration sd)))\<rfloor>)
                (X (acceleration sd))\<bar>
      in if d > 2.0 then ''Poor (High Drag)''
         else if d < 0.5 then ''Excellent''
         else if d < 1.0 then ''Very Good''
         else ''Good'')"
    by (simp add: calculateAnalysisMetrics_def Let_def rawDecelRate_mean glideAssessment_def)
  have input: "X (acceleration slideSample) = [5, 5, -1, -2, -1]"
    by (simp add: slideSample_def)
  have rate: "decelRate (calculateAnalysisMetrics slideSample) = Num (4 / 3)"
    by (simp add: calculateAnalysisMetrics_def Let_def slideSample_rawDecelRate)
  have good: "glideEfficiency (calculateAnalysisMetrics slideSample) = ''Good''"
    by (simp add: calculateAnalysisMetrics_def Let_def slideSample_rawDecelRate
        glideAssessment_def)
  have approx: "\<bar>4 / 3 - 1.333\<bar> < (0.0005 :: real)" by simp
  show ?thesis using general label input rate good approx by blast
qed

section \<open>Stopping a recording\<close>

lemma calculateVelocity_acceleration [simp]:
  "acceleration (calculateVelocity sd) = acceleration sd"
  by (simp add: calculateVelocity_def Let_def)

lemma calculateVelocity_gyroscope [simp]:
  "gyroscope (calculateVelocity sd) = gyroscope sd"
  by (simp add: calculateVelocity_def Let_def)

lemma trim_empty_acceleration:
  "X (acceleration sd) = [] \<Longrightarrow> trimToActualThrow sd = sd"
  by (simp add: trimToActualThrow_def Let_def)

lemma trim_acceleration_nonempty:
  assumes "X (acceleration sd) \<noteq> []"
  shows "X (acceleration (trimToActualThrow sd)) \<noteq> []"
proof -
  let ?a = "acceleration sd"
  have "trimStart ?a < length (X ?a)" "trimStart ?a < trimEnd ?a + 1"
    using trimStart_less [OF assms] trimStart_le_trimEnd [OF assms] by simp_all
  then show ?thesis
    by (simp add: trim_acceleration_X [OF assms] slice_nonempty)
qed

lemma trim_acceleration_length:
  "length (X (acceleration (trimToActualThrow sd))) \<le> length (X (acceleration sd))"
  by (cases "X (acceleration sd) = []")
    (simp_all add: trim_empty_acceleration trim_acceleration_X slice_length_le)

lemma trim_gyroscope_empty:
  "X (gyroscope sd) = [] \<Longrightarrow> X (gyroscope (trimToActualThrow sd)) = []"
  by (simp add: trimToActualThrow_def Let_def)

lemma processed_hasData:
  assumes "hasData sd"
  shows "hasData (calculateVelocity (trimToActualThrow sd))"
proof (cases "X (acceleration sd) = []")
  case True
  with assms show ?thesis by (simp add: trim_empty_acceleration hasData_def)
next
  case False
  then show ?thesis
    using trim_acceleration_nonempty [OF False] by (simp add: hasData_def)
qed

lemma stopRecording_hasData:
  assumes "hasData (sensorData s)"
  shows "stopRecording now s =
     (let sd = calculateVelocity (trimToActualThrow (sensorData s))
      in s\<lparr>isRecording := False, listening := False, sensorData := sd,
            localStorage := saveThrowToSession now (calculateAnalysisMetrics sd) (localStorage s)\<rparr>)"
  using assms processed_hasData [OF assms]
  by (simp add: stopRecording_def processData_def showAnalysis_def Let_def)

lemma stopRecording_noData:
  assumes "\<not> hasData (sensorData s)"
  shows "stopRecording now s =
     s\<lparr>isRecording := False, listening := False,
       alerts := alerts s @ [''No sensor data recorded. Please try again.'']\<rparr>"
  using assms by (simp add: stopRecording_def processData_def showAnalysis_def)

lemma stopRecording_isRecording [simp]: "isRecording (stopRecording now s) = False"
  by (cases "hasData (sensorData s)")
    (simp_all add: stopRecording_hasData stopRecording_noData Let_def)

lemma stopRecording_autoStop [simp]:
  "autoStopNotifications (stopRecording now s) = autoStopNotifications s"
  "lastAutoStopCheck (stopRecording now s) = lastAutoStopCheck s"
  "autoStopBuffer (stopRecording now s) = autoStopBuffer s"
  by (cases "hasData (sensorData s)";
      simp add: stopRecording_hasData stopRecording_noData Let_def)+

lemma stopRecording_keeps_hasData:
  "hasData (sensorData s) \<Longrightarrow> hasData (sensorData (stopRecording now s))"
  by (simp add: stopRecording_hasData Let_def processed_hasData)

text \<open>The record that \<^const>\<open>saveThrowToSession\<close> stores.\<close>

lemma save_session_throws:
  "curling_session_throws (saveThrowToSession now a st) =
     Some ((case curling_session_throws st of None \<Rightarrow> [] | Some ts \<Rightarrow> ts)
        @ [JSON_throw (makeThrowData now a
             (session_id (case curling_current_session st of
                None \<Rightarrow> \<lparr>session_id = now, session_startTime = now\<rparr> | Some cs \<Rightarrow> cs)))])"
  by (simp add: saveThrowToSession_def Let_def)

lemma save_latest_throw:
  "curling_latest_throw (saveThrowToSession now a st) =
     Some (JSON_throw (makeThrowData now a
             (session_id (case curling_current_session st of
                None \<Rightarrow> \<lparr>session_id = now, session_startTime = now\<rparr> | Some cs \<Rightarrow> cs))))"
  by (simp add: saveThrowToSession_def Let_def)

lemma stopRecording_stores:
  assumes "hasData (sensorData s)"
  shows "\<exists>sid. storedThrows (stopRecording now s) =
            storedThrows s @ [JSON_throw (makeThrowData now
              (calculateAnalysisMetrics (sensorData (stopRecording now s))) sid)]
          \<and> curling_latest_throw (localStorage (stopRecording now s)) =
            Some (JSON_throw (makeThrowData now
              (calculateAnalysisMetrics (sensorData (stopRecording now s))) sid))"
  by (intro exI [of _ "session_id (case curling_current_session (localStorage s) of
          None \<Rightarrow> \<lparr>session_id = now, session_startTime = now\<rparr> | Some cs \<Rightarrow> cs)"])
    (simp add: stopRecording_hasData [OF assms] Let_def storedThrows_def
      save_session_throws save_latest_throw)

lemma stopRecording_alerts:
  "hasData (sensorData s) \<Longrightarrow> alerts (stopRecording now s) = alerts s"
  by (simp add: stopRecording_hasData Let_def)

lemma stopRecording_sensorData:
  "hasData (sensorData s) \<Longrightarrow>
   sensorData (stopRecording now s) = calculateVelocity (trimToActualThrow (sensorData s))"
  by (simp add: stopRecording_hasData Let_def)

lemma short_pushoff:
  assumes "length (X (acceleration sd)) < 5"
  shows "pushoffStrength (calculateAnalysisMetrics sd) = NegInfinity"
proof -
  have "pushoffPeriod (acceleration sd) = 0"
    using assms by (simp add: pushoffPeriod_div)
  then show ?thesis
    by (simp add: calculateAnalysisMetrics_def Let_def slice_def)
qed

lemma shortRecording_simps:
  "alerts shortRecording = []"
  "storedThrows shortRecording = []"
  "hasData (sensorData shortRecording)"
  "length (X (acceleration (sensorData shortRecording))) = 3"
  "X (gyroscope (sensorData shortRecording)) = []"
  by (simp_all add: shortRecording_def initialAnalyzer_def storedThrows_def emptyStorage_def
      hasData_def threeSamples_def empty_sensor_data_def empty_axes_def)

lemma gyroOnlyRecording_simps:
  "alerts gyroOnlyRecording = []"
  "storedThrows gyroOnlyRecording = []"
  "hasData (sensorData gyroOnlyRecording)"
  "X (acceleration (sensorData gyroOnlyRecording)) = []"
  "X (gyroscope (sensorData gyroOnlyRecording)) \<noteq> []"
  by (simp_all add: gyroOnlyRecording_def initialAnalyzer_def storedThrows_def emptyStorage_def
      hasData_def oneRotation_def empty_sensor_data_def empty_axes_def)

lemma emptyRecording_simps:
  "alerts emptyRecording = []"
  "storedThrows emptyRecording = []"
  "\<not> hasData (sensorData emptyRecording)"
  by (simp_all add: emptyRecording_def initialAnalyzer_def storedThrows_def emptyStorage_def
      hasData_def empty_sensor_data_def empty_axes_def)

text \<open>
  C1.  The claim is that every numeric field of a stored throw is finite, also for a
  capture of fewer than 5 acceleration samples.  The code does not do that: for a capture
  with data and fewer than 5 acceleration samples the push-off window is empty,
  \<open>pushoffStrength\<close> of the metrics record is \<open>-Infinity\<close>, and the record handed to storage
  holds \<open>null\<close> in that field.
\<close>

theorem short_capture_pushoffStrength:
  assumes "hasData (sensorData s)" and "length (X (acceleration (sensorData s))) < 5"
  shows "pushoffStrength (calculateAnalysisMetrics (sensorData (stopRecording now s)))
           = NegInfinity
       \<and> \<not> isFinite (pushoffStrength
             (calculateAnalysisMetrics (sensorData (stopRecording now s))))
       \<and> (\<exists>t. storedThrows (stopRecording now s) = storedThrows s @ [t]
              \<and> curling_latest_throw (localStorage (stopRecording now s)) = Some t
              \<and> pushoffStrength t = None)"
proof -
  let ?sd = "sensorData (stopRecording now s)"
  have "length (X (acceleration ?sd)) < 5"
    using trim_acceleration_length [of "sensorData s"] assms(2)
    by (simp add: stopRecording_sensorData [OF assms(1)])
  then have p: "pushoffStrength (calculateAnalysisMetrics ?sd) = NegInfinity"
    by (rule short_pushoff)
  from stopRecording_stores [OF assms(1), of now] obtain sid where
    st: "storedThrows (stopRecording now s) =
           storedThrows s @ [JSON_throw (makeThrowData now (calculateAnalysisMetrics ?sd) sid)]"
    and la: "curling_latest_throw (localStorage (stopRecording now s)) =
           Some (JSON_throw (makeThrowData now (calculateAnalysisMetrics ?sd) sid))"
    by blast
  have "pushoffStrength (JSON_throw (makeThrowData now (calculateAnalysisMetrics ?sd) sid)) = None"
    by (simp add: JSON_throw_def makeThrowData_def p)
  with st la p show ?thesis by auto
qed

text \<open>The recording of three acceleration samples.\<close>

theorem short_capture_pushoffStrength_witness:
  "pushoffStrength (calculateAnalysisMetrics (sensorData (stopRecording 1000 shortRecording)))
     = NegInfinity
   \<and> (\<exists>t. storedThrows (stopRecording 1000 shortRecording) = [t] \<and> pushoffStrength t = None)"
  using short_capture_pushoffStrength [of shortRecording 1000]
  by (auto simp: shortRecording_simps)

text \<open>
  C7.  As amended: when the acceleration stream and the rotation stream are both empty,
  stopping reports that no data was recorded (an alert, nothing is thrown), the sensor data
  is untouched and nothing is stored.  A capture with rotation samples and no acceleration
  sample counts as data: no alert is raised and a throw is stored.
\<close>

theorem no_data_when_both_streams_empty:
  "(\<not> hasData (sensorData s) \<longrightarrow>
      alerts (stopRecording now s) = alerts s @ [''No sensor data recorded. Please try again.'']
      \<and> localStorage (stopRecording now s) = localStorage s
      \<and> sensorData (stopRecording now s) = sensorData s)
   \<and> (X (acceleration (sensorData s)) = [] \<and> X (gyroscope (sensorData s)) \<noteq> [] \<longrightarrow>
      alerts (stopRecording now s) = alerts s
      \<and> X (acceleration (sensorData (stopRecording now s))) = []
      \<and> (\<exists>t. storedThrows (stopRecording now s) = storedThrows s @ [t]
             \<and> curling_latest_throw (localStorage (stopRecording now s)) = Some t))"
proof (intro conjI impI)
  assume no: "\<not> hasData (sensorData s)"
  show "alerts (stopRecording now s) = alerts s @ [''No sensor data recorded. Please try again.'']"
    and "localStorage (stopRecording now s) = localStorage s"
    and "sensorData (stopRecording now s) = sensorData s"
    by (simp_all add: stopRecording_noData [OF no])
next
  assume g: "X (acceleration (sensorData s)) = [] \<and> X (gyroscope (sensorData s)) \<noteq> []"
  then have has: "hasData (sensorData s)" by (simp add: hasData_def)
  show "alerts (stopRecording now s) = alerts s"
    by (rule stopRecording_alerts [OF has])
  show "X (acceleration (sensorData (stopRecording now s))) = []"
    using g by (simp add: stopRecording_sensorData [OF has] trim_empty_acceleration)
  show "\<exists>t. storedThrows (stopRecording now s) = storedThrows s @ [t]
           \<and> curling_latest_throw (localStorage (stopRecording now s)) = Some t"
    using stopRecording_stores [OF has, of now] by blast
qed

text \<open>The recording of no sample and the recording of one rotation sample.\<close>

theorem no_data_when_both_streams_empty_witness:
  "alerts (stopRecording 1000 emptyRecording) = [''No sensor data recorded. Please try again.'']
   \<and> localStorage (stopRecording 1000 emptyRecording) = localStorage emptyRecording
   \<and> alerts (stopRecording 1000 gyroOnlyRecording) = []
   \<and> (\<exists>t. storedThrows (stopRecording 1000 gyroOnlyRecording) = [t])"
  using no_data_when_both_streams_empty [of emptyRecording 1000]
    no_data_when_both_streams_empty [of gyroOnlyRecording 1000]
  by (auto simp: emptyRecording_simps gyroOnlyRecording_simps)

text \<open>The recording of one rotation sample and no acceleration sample: its trimmed
  acceleration stream is empty, no alert is raised and one throw is stored.\<close>

theorem gyro_only_capture_is_stored:
  "X (acceleration (sensorData gyroOnlyRecording)) = []
   \<and> X (acceleration (sensorData (stopRecording 1000 gyroOnlyRecording))) = []
   \<and> alerts (stopRecording 1000 gyroOnlyRecording) = []
   \<and> storedThrows gyroOnlyRecording = []
   \<and> length (storedThrows (stopRecording 1000 gyroOnlyRecording)) = 1"
proof -
  have has: "hasData (sensorData gyroOnlyRecording)"
    by (rule gyroOnlyRecording_simps)
  have "X (acceleration (sensorData (stopRecording 1000 gyroOnlyRecording))) = []"
    by (simp add: stopRecording_sensorData [OF has] trim_empty_acceleration
        gyroOnlyRecording_simps)
  moreover have "alerts (stopRecording 1000 gyroOnlyRecording) = []"
    by (simp add: stopRecording_alerts [OF has] gyroOnlyRecording_simps)
  moreover have "length (storedThrows (stopRecording 1000 gyroOnlyRecording)) = 1"
    using stopRecording_stores [OF has, of 1000] by (auto simp: gyroOnlyRecording_simps)
  ultimately show ?thesis by (simp add: gyroOnlyRecording_simps)
qed

section \<open>A throw without rotation samples\<close>

text \<open>
  C10.  When the gyroscope stream handed to the extractor is empty, the metrics still come
  out and their stability score is exactly 100: the variance of no magnitudes is 0.  When
  the capture has data and its trimmed gyroscope stream is empty, the throw is stored with
  the score 100.
\<close>

theorem empty_gyroscope_stabilityScore:
  "(X (gyroscope sd) = [] \<longrightarrow>
      calculateVariance (pitchRoll (gyroscope sd)) = 0
      \<and> stabilityScore (calculateAnalysisMetrics sd) = Num 100)
   \<and> (hasData (sensorData s) \<and> X (gyroscope (sensorData (stopRecording now s))) = [] \<longrightarrow>
        (\<exists>t. storedThrows (stopRecording now s) = storedThrows s @ [t]
             \<and> curling_latest_throw (localStorage (stopRecording now s)) = Some t
             \<and> stabilityScore t = Some 100))"
proof (intro conjI impI)
  have none: "pitchRoll gyro = []" if "X gyro = []" for gyro
    using that by (simp add: pitchRoll_def)
  have hundred: "stabilityScore (calculateAnalysisMetrics d) = Num 100"
    if "X (gyroscope d) = []" for d
    using that
    by (simp add: calculateAnalysisMetrics_def stabilityScoreOf_def none
        calculateVariance_def Let_def)
  {
    assume e: "X (gyroscope sd) = []"
    show "calculateVariance (pitchRoll (gyroscope sd)) = 0"
      by (simp add: none [OF e] calculateVariance_def)
    show "stabilityScore (calculateAnalysisMetrics sd) = Num 100"
      by (rule hundred [OF e])
  }
  assume "hasData (sensorData s) \<and> X (gyroscope (sensorData (stopRecording now s))) = []"
  then have has: "hasData (sensorData s)"
    and e: "X (gyroscope (sensorData (stopRecording now s))) = []"
    by simp_all
  have score: "stabilityScore (calculateAnalysisMetrics (sensorData (stopRecording now s)))
      = Num 100"
    by (rule hundred [OF e])
  from stopRecording_stores [OF has, of now] obtain sid where
    st: "storedThrows (stopRecording now s) = storedThrows s @ [JSON_throw (makeThrowData now
          (calculateAnalysisMetrics (sensorData (stopRecording now s))) sid)]"
    and la: "curling_latest_throw (localStorage (stopRecording now s)) = Some (JSON_throw
          (makeThrowData now (calculateAnalysisMetrics (sensorData (stopRecording now s))) sid))"
    by blast
  have "stabilityScore (JSON_throw (makeThrowData now
      (calculateAnalysisMetrics (sensorData (stopRecording now s))) sid)) = Some 100"
    by (simp add: JSON_throw_def makeThrowData_def score)
  with st la show "\<exists>t. storedThrows (stopRecording now s) = storedThrows s @ [t]
      \<and> curling_latest_throw (localStorage (stopRecording now s)) = Some t
      \<and> stabilityScore t = Some 100"
    by blast
qed

text \<open>The recording of three acceleration samples has no rotation sample.\<close>

theorem empty_gyroscope_stabilityScore_witness:
  "X (gyroscope (sensorData (stopRecording 1000 shortRecording))) = []
   \<and> stabilityScore (calculateAnalysisMetrics (sensorData (stopRecording 1000 shortRecording)))
        = Num 100
   \<and> (\<exists>t. storedThrows (stopRecording 1000 shortRecording) = [t] \<and> stabilityScore t = Some 100)"
proof -
  have has: "hasData (sensorData shortRecording)" by (rule shortRecording_simps)
  have g: "X (gyroscope (sensorData (stopRecording 1000 shortRecording))) = []"
    by (simp add: stopRecording_sensorData [OF has] trim_gyroscope_empty shortRecording_simps)
  show ?thesis
    using empty_gyroscope_stabilityScore
      [of "sensorData (stopRecording 1000 shortRecording)" shortRecording 1000] has g
    by (auto simp: shortRecording_simps)
qed

section \<open>The velocity series\<close>

lemma integrated_0:
  "integrated a 0 = \<lparr>X = [0], timestamps = [index_or0 (timestamps a) 0]\<rparr>"
  by (simp add: integrated_def)

lemma integrated_1:
  "integrated a (Suc 0) = \<lparr>X = [0], timestamps = [index_or0 (timestamps a) 0]\<rparr>"
  by (simp add: integrated_def)

lemma integrated_Suc:
  "1 \<le> m \<Longrightarrow> integrated a (Suc m) = velocityStep a m (integrated a m)"
  by (simp add: integrated_def)

lemma velocity_integrated:
  "velocity (calculateVelocity sd) = integrated (acceleration sd) (length (X (acceleration sd)))"
  by (simp add: calculateVelocity_def integrated_def Let_def)

lemma integrated_length: "length (X (integrated a m)) = max 1 m"
proof (induction m)
  case 0
  show ?case by (simp add: integrated_0)
next
  case (Suc m)
  show ?case
  proof (cases "m = 0")
    case True
    then show ?thesis by (simp add: integrated_1)
  next
    case False
    then have "1 \<le> m" by simp
    then show ?thesis
      using Suc by (simp add: integrated_Suc velocityStep_def Let_def)
  qed
qed

lemma integrated_prefix:
  assumes "i < max 1 m"
  shows "X (integrated a (Suc m)) ! i = X (integrated a m) ! i"
proof (cases "m = 0")
  case True
  then show ?thesis by (simp add: integrated_0 integrated_1)
next
  case False
  then have "1 \<le> m" by simp
  then show ?thesis
    using assms
    by (simp add: integrated_Suc velocityStep_def Let_def nth_append integrated_length)
qed

lemma integrated_first: "X (integrated a m) ! 0 = 0"
proof (induction m)
  case 0
  show ?case by (simp add: integrated_0)
next
  case (Suc m)
  then show ?case by (simp add: integrated_prefix)
qed

lemma integrated_step:
  assumes "1 \<le> i" "i < m"
  shows "X (integrated a m) ! i =
         X (integrated a m) ! (i - 1)
           + ((X a ! i + X a ! (i - 1)) / 2) * (timestamps a ! i - timestamps a ! (i - 1))"
  using assms
proof (induction m)
  case 0
  then show ?case by simp
next
  case (Suc m)
  show ?case
  proof (cases "i < m")
    case True
    with Suc show ?thesis by (simp add: integrated_prefix)
  next
    case False
    with Suc.prems have im: "i = m" by simp
    with Suc.prems have m1: "1 \<le> m" by simp
    have last: "X (integrated a (Suc m)) ! m =
        X (integrated a m) ! (m - 1)
          + ((X a ! m + X a ! (m - 1)) / 2) * (timestamps a ! m - timestamps a ! (m - 1))"
      using m1
      by (simp add: integrated_Suc velocityStep_def Let_def nth_append integrated_length)
    have "X (integrated a (Suc m)) ! (m - 1) = X (integrated a m) ! (m - 1)"
      using m1 by (intro integrated_prefix) simp
    with last im show ?thesis by simp
  qed
qed

lemma constant_acceleration:
  assumes "\<forall>i<m. X a ! i = c \<and> timestamps a ! i = t0 + real i * dt" "i < m"
  shows "X (integrated a m) ! i = real i * c * dt"
  using assms(2)
proof (induction i)
  case 0
  show ?case by (simp add: integrated_first)
next
  case (Suc i)
  then have "X (integrated a m) ! i = real i * c * dt" by simp
  moreover have "X a ! Suc i = c" "X a ! i = c"
    "timestamps a ! Suc i = t0 + real (Suc i) * dt" "timestamps a ! i = t0 + real i * dt"
    using assms(1) Suc.prems by simp_all
  ultimately show ?case
    using integrated_step [of "Suc i" m a] Suc.prems by (simp add: algebra_simps)
qed

text \<open>
  C3.  As amended: for an acceleration series of \<open>n\<close> samples with as many timestamps, the
  velocity series has \<open>max 1 n\<close> entries, the same length as the acceleration when that is
  not empty and the single entry 0 when it is; \<open>velocity[0] = 0\<close>, and for every later index
  \<open>velocity[i] = velocity[i-1] + ((ax[i] + ax[i-1]) / 2) * (t[i] - t[i-1])\<close>.  For a
  constant acceleration \<open>c\<close> sampled at a uniform spacing \<open>dt\<close>, \<open>velocity[i] = i * c * dt\<close>
  for every index.
\<close>

theorem velocity_trapezoid:
  assumes "a = acceleration sd" and "v = X (velocity (calculateVelocity sd))"
    and "length (timestamps a) = length (X a)"
  shows "length v = max 1 (length (X a))
       \<and> (X a \<noteq> [] \<longrightarrow> length v = length (X a))
       \<and> v ! 0 = 0
       \<and> (\<forall>i. 1 \<le> i \<and> i < length (X a) \<longrightarrow>
            v ! i = v ! (i - 1)
              + ((X a ! i + X a ! (i - 1)) / 2) * (timestamps a ! i - timestamps a ! (i - 1)))
       \<and> (\<forall>c t0 dt. (\<forall>i<length (X a). X a ! i = c \<and> timestamps a ! i = t0 + real i * dt)
            \<longrightarrow> (\<forall>i<length (X a). v ! i = real i * c * dt))"
proof -
  have v: "v = X (integrated a (length (X a)))"
    using assms(1,2) by (simp add: velocity_integrated)
  have len: "length v = max 1 (length (X a))"
    unfolding v by (rule integrated_length)
  have same: "length v = length (X a)" if "X a \<noteq> []"
    using len that by (cases "X a") simp_all
  have first: "v ! 0 = 0"
    unfolding v by (rule integrated_first)
  have step: "v ! i = v ! (i - 1)
      + ((X a ! i + X a ! (i - 1)) / 2) * (timestamps a ! i - timestamps a ! (i - 1))"
    if "1 \<le> i \<and> i < length (X a)" for i
    unfolding v using that by (intro integrated_step) simp_all
  have const: "v ! i = real i * c * dt"
    if "\<forall>i<length (X a). X a ! i = c \<and> timestamps a ! i = t0 + real i * dt"
      and "i < length (X a)" for c t0 dt i
    unfolding v using that by (rule constant_acceleration)
  show ?thesis
    using len same first step const by blast
qed

lemma constantPush_acceleration:
  "acceleration constantPush =
     \<lparr>X = [2, 2, 2], timestamps = [0, 0.5, 1], Y = [0, 0, 0], Z = [0, 0, 0]\<rparr>"
  by (simp add: constantPush_def)

text \<open>Three samples of acceleration 2, half a second apart: velocities 0, 1, 2.\<close>

theorem velocity_trapezoid_witness:
  "length (X (velocity (calculateVelocity constantPush))) = 3
   \<and> X (velocity (calculateVelocity constantPush)) ! 0 = 0
   \<and> X (velocity (calculateVelocity constantPush)) ! 1 = 1
   \<and> X (velocity (calculateVelocity constantPush)) ! 2 = 2"
proof -
  let ?a = "acceleration constantPush"
  let ?v = "X (velocity (calculateVelocity constantPush))"
  have len: "length (timestamps ?a) = length (X ?a)" and n: "length (X ?a) = 3"
    by (simp_all add: constantPush_acceleration)
  have uniform: "\<forall>i<length (X ?a). X ?a ! i = 2 \<and> timestamps ?a ! i = 0 + real i * 0.5"
    by (auto simp: constantPush_acceleration less_Suc_eq numeral_3_eq_3)
  note T = velocity_trapezoid [OF refl refl len]
  from T have l: "length ?v = 3" using n by simp
  from T have z: "?v ! 0 = 0" by blast
  from T uniform have "\<forall>i<length (X ?a). ?v ! i = real i * 2 * 0.5" by blast
  then have "?v ! 1 = real 1 * 2 * 0.5" "?v ! 2 = real 2 * 2 * 0.5"
    using n by simp_all
  with l z show ?thesis by simp
qed

text \<open>The recording of one rotation sample: the acceleration series is empty and the velocity
  series is the single entry 0.\<close>

theorem velocity_of_empty_acceleration:
  "X (acceleration (sensorData (stopRecording 1000 gyroOnlyRecording))) = []
   \<and> X (velocity (sensorData (stopRecording 1000 gyroOnlyRecording))) = [0]
   \<and> length (X (velocity (sensorData (stopRecording 1000 gyroOnlyRecording))))
       \<noteq> length (X (acceleration (sensorData (stopRecording 1000 gyroOnlyRecording))))"
proof -
  have has: "hasData (sensorData gyroOnlyRecording)" by (rule gyroOnlyRecording_simps)
  have e: "X (acceleration (sensorData gyroOnlyRecording)) = []"
    by (rule gyroOnlyRecording_simps)
  have sd: "sensorData (stopRecording 1000 gyroOnlyRecording)
      = calculateVelocity (sensorData gyroOnlyRecording)"
    by (simp add: stopRecording_sensorData [OF has] trim_empty_acceleration [OF e])
  have "X (velocity (calculateVelocity (sensorData gyroOnlyRecording))) = [0]"
    by (simp add: velocity_integrated e integrated_0)
  with e show ?thesis by (simp add: sd)
qed

section \<open>Rounding to a double\<close>

declare binade.simps [simp del]

lemma binade_log: "x \<noteq> 0 \<Longrightarrow> binade x = \<lfloor>log 2 \<bar>x\<bar>\<rfloor>"
proof (induction x rule: binade.induct)
  case (1 x)
  show ?case
  proof (cases "2 \<le> \<bar>x\<bar>")
    case True
    then have "log 2 \<bar>x / 2\<bar> = log 2 \<bar>x\<bar> - 1"
      using "1.prems" by (simp add: log_divide)
    then show ?thesis
      using "1.IH"(1) [OF "1.prems" True] "1.prems" True
      by (subst binade.simps) simp
  next
    case False
    show ?thesis
    proof (cases "\<bar>x\<bar> < 1")
      case True
      then have "log 2 \<bar>x * 2\<bar> = log 2 \<bar>x\<bar> + 1"
        using "1.prems" by (simp add: log_mult abs_mult)
      then show ?thesis
        using "1.IH"(2) [OF "1.prems" False True] "1.prems" False True
        by (subst binade.simps) simp
    next
      case unit: False
      with False have "0 \<le> log 2 \<bar>x\<bar>" "log 2 \<bar>x\<bar> < 1"
        using "1.prems" by (simp_all add: log_less_iff)
      then have "\<lfloor>log 2 \<bar>x\<bar>\<rfloor> = 0" by linarith
      with False unit "1.prems" show ?thesis by (subst binade.simps) simp
    qed
  qed
qed

text \<open>The binade is the exponent of the power of two just below the number.\<close>

lemma binade_bounds:
  assumes "x \<noteq> 0"
  shows "2 powi (binade x) \<le> \<bar>x\<bar>" "\<bar>x\<bar> < 2 powi (binade x + 1)"
proof -
  let ?k = "binade x"
  have k: "of_int ?k \<le> log 2 \<bar>x\<bar>" "log 2 \<bar>x\<bar> < of_int ?k + 1"
    unfolding binade_log [OF assms] by linarith+
  have "2 powr (of_int ?k) \<le> \<bar>x\<bar>" "\<bar>x\<bar> < 2 powr (of_int ?k + 1)"
    using k assms by (simp_all add: le_log_iff log_less_iff)
  then show "2 powi ?k \<le> \<bar>x\<bar>" "\<bar>x\<bar> < 2 powi (?k + 1)"
    using powr_real_of_int' [of 2 ?k] powr_real_of_int' [of 2 "?k + 1"] by simp_all
qed

lemma roundHalfEven_of_int [simp]: "roundHalfEven (of_int j) = j"
  by (simp add: roundHalfEven_def)

lemma rnd_0 [simp]: "rnd 0 = 0"
  by (simp add: rnd_def)

text \<open>A number with a mantissa of at most 53 bits is a double: rounding keeps it.\<close>

lemma rnd_exact:
  assumes "\<bar>m\<bar> < 2 ^ 53"
  shows "rnd (of_int m * 2 powi e) = of_int m * 2 powi e"
proof (cases "m = 0")
  case True
  then show ?thesis by simp
next
  case False
  let ?x = "of_int m * 2 powi e :: real"
  let ?k = "binade ?x"
  have x: "?x \<noteq> 0" using False by simp
  have "\<bar>?x\<bar> = of_int \<bar>m\<bar> * 2 powi e"
    by (simp add: abs_mult)
  also have "\<dots> < 2 ^ 53 * 2 powi e"
  proof -
    have "(of_int \<bar>m\<bar> :: real) < 2 ^ 53"
      using assms by (metis of_int_less_iff of_int_numeral of_int_power)
    then show ?thesis by (simp add: mult_strict_right_mono)
  qed
  also have "\<dots> = 2 powi (53 + e)"
    by (simp add: power_int_add)
  finally have "2 powi ?k < (2::real) powi (53 + e)"
    using binade_bounds(1) [OF x] by linarith
  then have "?k < 53 + e"
    using power_int_increasing [of "53 + e" ?k "2::real"] by (cases "?k < 53 + e") auto
  then have "0 \<le> e - (?k - 52)" by simp
  then obtain n :: nat where n: "e - (?k - 52) = int n"
    using nonneg_int_cases by blast
  have "?x / 2 powi (?k - 52) = of_int m * 2 powi (e - (?k - 52))"
    by (simp add: power_int_diff)
  also have "\<dots> = of_int (m * 2 ^ n)"
    by (simp add: n)
  finally have q: "?x / 2 powi (?k - 52) = of_int (m * 2 ^ n)" .
  have "rnd ?x = of_int (m * 2 ^ n) * 2 powi (?k - 52)"
    using x by (simp only: rnd_def q roundHalfEven_of_int if_False)
  also have "\<dots> = of_int m * (2 powi (int n) * 2 powi (?k - 52))"
    by simp
  also have "2 powi (int n) * 2 powi (?k - 52) = (2::real) powi e"
    unfolding n [symmetric] by (simp flip: power_int_add)
  finally show ?thesis .
qed

text \<open>Whole numbers and halves below \<open>2^53\<close> are doubles.\<close>

lemma rnd_numeral: "numeral n < (2::int) ^ 53 \<Longrightarrow> rnd (numeral n) = numeral n"
  using rnd_exact [of "numeral n" 0] by simp

lemma rnd_numeral_half:
  "numeral n < (2::int) ^ 53 \<Longrightarrow> rnd (numeral n / 2) = numeral n / 2"
  using rnd_exact [of "numeral n" "-1"] by simp

lemma rnd_1 [simp]: "rnd 1 = 1"
  using rnd_exact [of 1 0] by simp

lemma rnd_half [simp]: "rnd (1 / 2) = 1 / 2"
  using rnd_exact [of 1 "-1"] by simp

lemmas rnd_small = rnd_numeral rnd_numeral_half

lemma sqrt_25: "sqrt 25 = 5"
  by (rule real_sqrt_unique) simp_all

section \<open>The auto-stop detector\<close>

lemma deviceMotionHandler_stopped:
  "\<not> isRecording s \<Longrightarrow> deviceMotionHandler now event s = s"
  by (simp add: deviceMotionHandler_def)

lemma stopRecording_startTime [simp]: "startTime (stopRecording now s) = startTime s"
  by (cases "hasData (sensorData s)")
    (simp_all add: stopRecording_hasData stopRecording_noData Let_def)

lemma entries_needed: "ddiv autoStopDuration autoStopCheckInterval = 6"
  by (simp add: ddiv_def autoStopDuration_def autoStopCheckInterval_def rnd_small)

lemma readingMagnitude_sampleMagnitude: "readingMagnitude acc = sampleMagnitude acc"
  by (simp add: readingMagnitude_def sampleMagnitude_def)

lemma eventTimestamp_sampleTime: "eventTimestamp now s = sampleTime now (detectorOf s)"
  by (simp add: eventTimestamp_def sampleTime_def detectorOf_def)

lemma recentBuffer_evicted:
  "recentBuffer acc (eventTimestamp now s) (autoStopBuffer s) = evicted now acc (detectorOf s)"
  by (simp add: recentBuffer_def evicted_def Let_def readingMagnitude_sampleMagnitude
      eventTimestamp_sampleTime autoStopDuration_def)
    (simp add: detectorOf_def)

lemma allCalm_signalDue:
  "real (length buf) \<ge> ddiv autoStopDuration autoStopCheckInterval \<and> allCalm buf
     \<longleftrightarrow> signalDue buf"
  by (simp add: entries_needed allCalm_def signalDue_def autoStopThreshold_def)

text \<open>What a check leaves of the detector.\<close>

lemma checkAutoStop_detector:
  "detectorOf (checkAutoStop now acc (eventTimestamp now s) s) =
     (if signalDue (evicted now acc (detectorOf s))
      then (detectorOf s)\<lparr>armed := False, window := evicted now acc (detectorOf s),
              raised := Suc (raised (detectorOf s))\<rparr>
      else (detectorOf s)\<lparr>window := evicted now acc (detectorOf s)\<rparr>)"
proof -
  let ?buf = "recentBuffer acc (eventTimestamp now s) (autoStopBuffer s)"
  have ev: "evicted now acc (detectorOf s) = ?buf"
    by (rule recentBuffer_evicted [symmetric])
  show ?thesis
  proof (cases "signalDue ?buf")
    case True
    then have "real (length ?buf) \<ge> ddiv autoStopDuration autoStopCheckInterval" "allCalm ?buf"
      using allCalm_signalDue [of ?buf] by simp_all
    then have "checkAutoStop now acc (eventTimestamp now s) s =
        showAutoStopNotification (stopRecording now (s\<lparr>autoStopBuffer := ?buf\<rparr>))"
      by (simp add: checkAutoStop_def Let_def)
    then show ?thesis
      unfolding ev using True
      by (simp add: showAutoStopNotification_def detectorOf_def)
  next
    case False
    then have "\<not> (real (length ?buf) \<ge> ddiv autoStopDuration autoStopCheckInterval
        \<and> allCalm ?buf)"
      using allCalm_signalDue [of ?buf] by simp
    then have "checkAutoStop now acc (eventTimestamp now s) s = s\<lparr>autoStopBuffer := ?buf\<rparr>"
      by (auto simp: checkAutoStop_def Let_def)
    then show ?thesis
      unfolding ev using False by (simp add: detectorOf_def)
  qed
qed

lemma pushed_detector:
  "detectorOf (s\<lparr>sensorData := sd\<rparr>) = detectorOf s"
  by (simp add: detectorOf_def)

text \<open>The handler carries out one observation of the detector.\<close>

lemma handler_detector:
  "detectorOf (deviceMotionHandler now event s) = observe now event (detectorOf s)"
proof (cases "isRecording s")
  case False
  then have "\<not> checkMade now event (detectorOf s)"
    by (simp add: checkMade_def detectorOf_def)
  with False show ?thesis
    by (simp add: deviceMotionHandler_stopped observe_def split: option.splits)
next
  case True
  let ?t = "eventTimestamp now s"
  show ?thesis
  proof (cases "accelerationIncludingGravity event")
    case None
    with True show ?thesis
      by (simp add: deviceMotionHandler_def observe_def Let_def pushed_detector
          split: option.splits)
  next
    case (Some acc)
    let ?s' = "s\<lparr>sensorData := pushAcceleration acc ?t (sensorData s)\<rparr>"
    have t': "eventTimestamp now ?s' = ?t"
      by (simp add: eventTimestamp_def)
    have due: "checkDue ?t ?s' \<longleftrightarrow> checkMade now event (detectorOf s)"
      using True Some
      by (simp add: checkDue_def checkMade_def autoStopCheckInterval_def
          eventTimestamp_sampleTime)
        (simp add: detectorOf_def)
    define s1 where "s1 =
      (if checkDue ?t ?s' then (checkAutoStop now acc ?t ?s')\<lparr>lastAutoStopCheck := ?t\<rparr>
       else ?s')"
    have handler: "deviceMotionHandler now event s =
        (case rotationRate event of
           None \<Rightarrow> s1
         | Some rot \<Rightarrow> s1\<lparr>sensorData := pushRotation rot ?t (sensorData s1)\<rparr>)"
      unfolding deviceMotionHandler_def s1_def Let_def Some
      using True by (simp only: not_True_eq_False if_False option.case)
    have "detectorOf (deviceMotionHandler now event s) = detectorOf s1"
      unfolding handler by (simp add: pushed_detector split: option.splits)
    also have "\<dots> = observe now event (detectorOf s)"
    proof (cases "checkMade now event (detectorOf s)")
      case False
      with due show ?thesis
        by (simp add: s1_def observe_def Some pushed_detector)
    next
      case made: True
      have chk: "detectorOf (checkAutoStop now acc ?t ?s') =
          (if signalDue (evicted now acc (detectorOf s))
           then (detectorOf s)\<lparr>armed := False, window := evicted now acc (detectorOf s),
                   raised := Suc (raised (detectorOf s))\<rparr>
           else (detectorOf s)\<lparr>window := evicted now acc (detectorOf s)\<rparr>)"
        using checkAutoStop_detector [of now acc ?s'] unfolding t' pushed_detector .
      have last: "detectorOf (x\<lparr>lastAutoStopCheck := v\<rparr>) = (detectorOf x)\<lparr>lastCheck := v\<rparr>"
        for x v
        by (simp add: detectorOf_def)
      have "detectorOf s1 = (detectorOf (checkAutoStop now acc ?t ?s'))\<lparr>lastCheck := ?t\<rparr>"
        using made due by (simp add: s1_def last)
      also have "\<dots> = observe now event (detectorOf s)"
        unfolding chk using made
        by (simp add: observe_def Some Let_def eventTimestamp_sampleTime)
      finally show ?thesis .
    qed
    finally show ?thesis .
  qed
qed

lemma runMotion_detector:
  "detectorOf (runMotion evs s) = observeAll evs (detectorOf s)"
proof (induction evs arbitrary: s)
  case Nil
  show ?case by simp
next
  case (Cons ev evs)
  then show ?case by (cases ev) (simp add: handler_detector)
qed

lemma startRecording_detector:
  "detectorOf (startRecording now s) =
     \<lparr>armed = True, origin = now, lastCheck = 0, window = [],
      raised = autoStopNotifications s\<rparr>"
  by (simp add: startRecording_def startSensorListening_def clearData_def detectorOf_def)

text \<open>The detector of the specification raises its signal only on a check that finds the
  buffer calm, and then disarms.\<close>

lemma observe_raised:
  "raised (observe now event d) =
     (if checkMade now event d
         \<and> (case accelerationIncludingGravity event of
               None \<Rightarrow> False | Some acc \<Rightarrow> signalDue (evicted now acc d))
      then Suc (raised d) else raised d)"
  by (simp add: observe_def Let_def split: option.splits)

lemma observe_signal:
  assumes "raised (observe now event d) \<noteq> raised d"
  shows "raised (observe now event d) = Suc (raised d)" "\<not> armed (observe now event d)"
    "checkMade now event d" "signalDue (window (observe now event d))"
  using assms by (auto simp: observe_def Let_def split: option.splits if_splits)

lemma observe_disarmed: "\<not> armed d \<Longrightarrow> observe now event d = d"
  by (simp add: observe_def checkMade_def split: option.splits)

lemma observeAll_disarmed: "\<not> armed d \<Longrightarrow> observeAll evs d = d"
proof (induction evs)
  case Nil
  show ?case by simp
next
  case (Cons ev evs)
  then show ?case by (cases ev) (simp add: observe_disarmed)
qed

lemma observe_early: "sampleTime now d \<le> 10.0 \<Longrightarrow> observe now event d = d"
  by (simp add: observe_def checkMade_def split: option.splits)

lemma observe_few:
  assumes "length (window d) < 5"
  shows "raised (observe now event d) = raised d"
proof -
  have "\<not> signalDue (evicted now acc d)" for acc
  proof -
    have "length (evicted now acc d) \<le> Suc (length (window d))"
      unfolding evicted_def by (rule order_trans [OF length_filter_le]) simp
    with assms show ?thesis by (simp add: signalDue_def)
  qed
  then show ?thesis by (simp add: observe_raised split: option.splits)
qed

lemma observeAll_once: "raised (observeAll evs d) \<le> Suc (raised d)"
proof (induction evs arbitrary: d)
  case Nil
  show ?case by simp
next
  case (Cons ev evs)
  obtain now event where ev: "ev = (now, event)" by (cases ev)
  show ?case
  proof (cases "raised (observe now event d) = raised d")
    case True
    with Cons.IH [of "observe now event d"] show ?thesis by (simp add: ev)
  next
    case False
    then have "observeAll evs (observe now event d) = observe now event d"
      by (intro observeAll_disarmed observe_signal)
    with observe_signal(1) [OF False] show ?thesis by (simp add: ev)
  qed
qed

text \<open>
  C6.  The motion handler is the auto-stop detector of the specification: each event is
  one observation, and a recording is the sequence of its observations from an armed
  detector with an empty buffer.  The detector raises its stop signal on an acceleration
  sample only: while armed, at a timestamp above 10.0 s, at a check at least 0.5 s after
  the last one, when the buffer, after the sample is added and the entries older than
  3.0 s are evicted, holds at least 6 entries, all with magnitude below 1.5.  No signal
  is raised up to 10.0 s, nor while the buffer has fewer than 5 entries before the sample.
  The signal disarms the detector, so that a stream of samples raises it at most once.
  Timestamps, their differences and the magnitudes are the doubles that the code computes.
\<close>

theorem autoStop_detector:
  "detectorOf (deviceMotionHandler now event s) = observe now event (detectorOf s)
   \<and> detectorOf (runMotion evs s) = observeAll evs (detectorOf s)
   \<and> detectorOf (startRecording now s) =
        \<lparr>armed = True, origin = now, lastCheck = 0, window = [],
         raised = autoStopNotifications s\<rparr>
   \<and> raised (observe now event d) =
        (if checkMade now event d
            \<and> (case accelerationIncludingGravity event of
                  None \<Rightarrow> False | Some acc \<Rightarrow> signalDue (evicted now acc d))
         then Suc (raised d) else raised d)
   \<and> (raised (observe now event d) \<noteq> raised d \<longrightarrow>
        \<not> armed (observe now event d) \<and> signalDue (window (observe now event d)))
   \<and> (sampleTime now d \<le> 10.0 \<longrightarrow> observe now event d = d)
   \<and> (length (window d) < 5 \<longrightarrow> raised (observe now event d) = raised d)
   \<and> raised (observeAll evs d) \<le> Suc (raised d)
   \<and> (\<not> armed d \<longrightarrow> observeAll evs d = d)"
  using handler_detector [of now event s] runMotion_detector [of evs s]
    startRecording_detector [of now s] observe_raised [of now event d]
    observe_signal(2,4) [of now event d] observe_early [of now d event]
    observe_few [of d now event] observeAll_once [of evs d] observeAll_disarmed [of d evs]
  by blast

lemma calmEvent_reading:
  "accelerationIncludingGravity calmEvent = Some \<lparr>acc_x = Some 0, acc_y = None, acc_z = Some 1\<rparr>"
  "sampleMagnitude \<lparr>acc_x = Some 0, acc_y = None, acc_z = Some 1\<rparr> = 1"
  by (simp_all add: calmEvent_def sampleMagnitude_def dsqrt_def dadd_def dpow2_def)

lemma movingEvent_reading:
  "accelerationIncludingGravity movingEvent =
     Some \<lparr>acc_x = Some 3, acc_y = Some 4, acc_z = Some 0\<rparr>"
  "sampleMagnitude \<lparr>acc_x = Some 3, acc_y = Some 4, acc_z = Some 0\<rparr> = 5"
  by (simp_all add: movingEvent_def sampleMagnitude_def dsqrt_def dadd_def dpow2_def
      rnd_small sqrt_25)

text \<open>Five calm checks from 10.5 s to 12.5 s fill the buffer of a new recording.\<close>

lemma fiveCalm_detector:
  "observeAll fiveCalm \<lparr>armed = True, origin = 0, lastCheck = 0, window = [], raised = 0\<rparr> =
     \<lparr>armed = True, origin = 0, lastCheck = 25 / 2,
      window =
        [\<lparr>bp_acceleration = 1, bp_timestamp = 21 / 2\<rparr>, \<lparr>bp_acceleration = 1, bp_timestamp = 11\<rparr>,
         \<lparr>bp_acceleration = 1, bp_timestamp = 23 / 2\<rparr>, \<lparr>bp_acceleration = 1, bp_timestamp = 12\<rparr>,
         \<lparr>bp_acceleration = 1, bp_timestamp = 25 / 2\<rparr>],
      raised = 0\<rparr>"
  by (simp add: fiveCalm_def observe_def checkMade_def evicted_def signalDue_def
      sampleTime_def calmEvent_reading ddiv_def dsub_def rnd_small Let_def)

lemma detectorOf_fields:
  "armed (detectorOf s) = isRecording s"
  "window (detectorOf s) = autoStopBuffer s"
  "raised (detectorOf s) = autoStopNotifications s"
  by (simp_all add: detectorOf_def)

text \<open>A recording is started and five calm samples arrive, half a second apart from
  10.5 s on: the buffer holds five entries and no signal is raised.  The sixth calm sample,
  at 13 s, raises the signal and ends the recording; a seventh raises nothing more.  Were
  the sixth sample one in motion, no signal would be raised.\<close>

theorem autoStop_detector_witness:
  "isRecording (runMotion fiveCalm (startRecording 0 initialAnalyzer))
   \<and> autoStopNotifications (runMotion fiveCalm (startRecording 0 initialAnalyzer)) = 0
   \<and> length (autoStopBuffer (runMotion fiveCalm (startRecording 0 initialAnalyzer))) = 5
   \<and> autoStopNotifications
        (deviceMotionHandler 13000 calmEvent
          (runMotion fiveCalm (startRecording 0 initialAnalyzer))) = 1
   \<and> \<not> isRecording
        (deviceMotionHandler 13000 calmEvent
          (runMotion fiveCalm (startRecording 0 initialAnalyzer)))
   \<and> autoStopNotifications
        (runMotion [(13000, calmEvent), (13500, calmEvent)]
          (runMotion fiveCalm (startRecording 0 initialAnalyzer))) = 1
   \<and> autoStopNotifications
        (deviceMotionHandler 13000 movingEvent
          (runMotion fiveCalm (startRecording 0 initialAnalyzer))) = 0"
proof -
  let ?s0 = "startRecording 0 initialAnalyzer"
  let ?R = "runMotion fiveCalm ?s0"
  let ?d5 = "\<lparr>armed = True, origin = 0, lastCheck = 25 / 2,
      window =
        [\<lparr>bp_acceleration = 1, bp_timestamp = 21 / 2\<rparr>, \<lparr>bp_acceleration = 1, bp_timestamp = 11\<rparr>,
         \<lparr>bp_acceleration = 1, bp_timestamp = 23 / 2\<rparr>, \<lparr>bp_acceleration = 1, bp_timestamp = 12\<rparr>,
         \<lparr>bp_acceleration = 1, bp_timestamp = 25 / 2\<rparr>],
      raised = 0\<rparr>"
  have start: "detectorOf ?s0 =
      \<lparr>armed = True, origin = 0, lastCheck = 0, window = [], raised = 0\<rparr>"
    using autoStop_detector [of 0 calmEvent initialAnalyzer "[]" "detectorOf initialAnalyzer"]
    by (simp add: initialAnalyzer_def)
  have R: "detectorOf ?R = ?d5"
    using autoStop_detector [of 0 calmEvent ?s0 fiveCalm "detectorOf ?s0"]
    by (simp add: start fiveCalm_detector)
  have six: "observe 13000 calmEvent ?d5 =
      ?d5\<lparr>armed := False, lastCheck := 13,
           window := window ?d5 @ [\<lparr>bp_acceleration = 1, bp_timestamp = 13\<rparr>], raised := 1\<rparr>"
    by (simp add: observe_def checkMade_def evicted_def signalDue_def sampleTime_def
        calmEvent_reading ddiv_def dsub_def rnd_small Let_def)
  have moving: "raised (observe 13000 movingEvent ?d5) = 0"
    by (simp add: observe_def checkMade_def evicted_def signalDue_def sampleTime_def
        movingEvent_reading ddiv_def dsub_def rnd_small Let_def)
  have stop: "detectorOf (deviceMotionHandler 13000 calmEvent ?R) = observe 13000 calmEvent ?d5"
    using autoStop_detector [of 13000 calmEvent ?R "[]" ?d5] by (simp add: R)
  have move: "detectorOf (deviceMotionHandler 13000 movingEvent ?R)
      = observe 13000 movingEvent ?d5"
    using autoStop_detector [of 13000 movingEvent ?R "[]" ?d5] by (simp add: R)
  have later: "detectorOf (runMotion [(13000, calmEvent), (13500, calmEvent)] ?R)
      = observeAll [(13000, calmEvent), (13500, calmEvent)] ?d5"
    using autoStop_detector
      [of 13000 calmEvent ?R "[(13000, calmEvent), (13500, calmEvent)]" ?d5]
    by (simp add: R)
  have seven: "raised (observeAll [(13000, calmEvent), (13500, calmEvent)] ?d5) = 1"
    by (simp add: six observe_disarmed)
  have "isRecording ?R" "autoStopNotifications ?R = 0" "length (autoStopBuffer ?R) = 5"
    using R by (simp_all flip: detectorOf_fields)
  moreover have "autoStopNotifications (deviceMotionHandler 13000 calmEvent ?R) = 1"
    "\<not> isRecording (deviceMotionHandler 13000 calmEvent ?R)"
    using stop six by (simp_all flip: detectorOf_fields)
  moreover have
    "autoStopNotifications (runMotion [(13000, calmEvent), (13500, calmEvent)] ?R) = 1"
    using later seven by (simp flip: detectorOf_fields)
  moreover have "autoStopNotifications (deviceMotionHandler 13000 movingEvent ?R) = 0"
    using move moving by (simp flip: detectorOf_fields)
  ultimately show ?thesis by blast
qed

text \<open>The tests are made on the doubles computed: from 15.502 s to 16.002 s the computed
  difference is below 0.5, so no check is made, and an entry of 13.001 s is evicted at
  16.001 s, its computed age being above 3.0.\<close>

lemma timing_in_doubles:
  "dsub (ddiv 16002 1000) (ddiv 15502 1000) < 0.5"
  "dsub (ddiv 16001 1000) (ddiv 13001 1000) > 3.0"
  "\<not> checkMade 16002 calmEvent
       \<lparr>armed = True, origin = 0, lastCheck = ddiv 15502 1000, window = [], raised = 0\<rparr>"
  by code_simp+

section \<open>Stopping twice\<close>








section \<open>The consistency of a session\<close>

lemma calculateCV_coefficientOfVariation: "calculateCV vs = coefficientOfVariation vs"
proof (cases "vs = []")
  case True
  then show ?thesis
    by (simp add: calculateCV_def coefficientOfVariation_def meanOf_def sumOf_def ddiv_def)
next
  case False
  from False show ?thesis
    unfolding calculateCV_def coefficientOfVariation_def standardDeviation_def
      meanOf_def sumOf_def Let_def foldl_map
    by simp
qed

lemma summary_consistency:
  assumes "throws \<noteq> []"
  shows "\<exists>s. calculateSessionSummary throws = Some s
       \<and> consistency s =
           max 0 (dsub 100 (dmul (ddiv
             (dadd (dadd (coefficientOfVariation (map (\<lambda>t. or0 (pushoffStrength t)) throws))
                         (coefficientOfVariation (map (\<lambda>t. or0 (peakVelocity t)) throws)))
                   (coefficientOfVariation (map (\<lambda>t. or0 (stabilityScore t)) throws))) 3) 10))"
  using assms
  by (simp add: calculateSessionSummary_def Let_def calculateCV_coefficientOfVariation)

lemma sumOf_zeros: "\<forall>v\<in>set vs. v = 0 \<Longrightarrow> sumOf vs = 0"
proof -
  have "foldl dadd a vs = a" if "\<forall>v\<in>set vs. v = 0" "a = 0" for a
    using that by (induction vs arbitrary: a) (simp_all add: dadd_def)
  then show "\<forall>v\<in>set vs. v = 0 \<Longrightarrow> sumOf vs = 0"
    by (simp add: sumOf_def)
qed

text \<open>A steady sequence has no deviation from its mean, so its coefficient of variation
  is 0.\<close>

lemma steady_coefficientOfVariation:
  assumes "steady vs"
  shows "coefficientOfVariation vs = 0"
proof -
  have "\<forall>d\<in>set (map (\<lambda>v. dpow2 (dsub v (meanOf vs))) vs). d = 0"
    using assms by (auto simp: steady_def dsub_def dpow2_def)
  then have "sumOf (map (\<lambda>v. dpow2 (dsub v (meanOf vs))) vs) = 0"
    by (rule sumOf_zeros)
  then have "standardDeviation vs = 0"
    by (simp add: standardDeviation_def ddiv_def dsqrt_def)
  then show ?thesis
    by (simp add: coefficientOfVariation_def ddiv_def dmul_def)
qed

text \<open>A sequence of \<open>n\<close> copies of a whole number \<open>c\<close> is steady as long as \<open>n * |c|\<close> stays
  below \<open>2^53\<close>: every partial sum is a double.\<close>

lemma sum_of_copies:
  assumes "int (k + m) * \<bar>c\<bar> < 2 ^ 53"
  shows "foldl dadd (of_int (int k * c)) (replicate m (of_int c)) = of_int (int (k + m) * c)"
  using assms
proof (induction m arbitrary: k)
  case 0
  show ?case by simp
next
  case (Suc m)
  have "\<bar>int (Suc k) * c\<bar> = int (Suc k) * \<bar>c\<bar>"
    by (simp only: abs_mult abs_of_nat)
  also have "\<dots> \<le> int (k + Suc m) * \<bar>c\<bar>"
    by (intro mult_right_mono) simp_all
  finally have "\<bar>int (Suc k) * c\<bar> < 2 ^ 53"
    using Suc.prems by linarith
  from rnd_exact [OF this, of 0]
  have "dadd (of_int (int k * c)) (of_int c) = of_int (int (Suc k) * c)"
    by (simp add: dadd_def algebra_simps)
  moreover have "foldl dadd (of_int (int (Suc k) * c)) (replicate m (of_int c))
      = of_int (int (Suc k + m) * c)"
    using Suc.prems by (intro Suc.IH) simp
  ultimately show ?case by simp
qed

lemma steady_whole:
  assumes "int n * \<bar>c\<bar> < 2 ^ 53"
  shows "steady (replicate n (of_int c))"
proof (cases "n = 0")
  case True
  then show ?thesis by (simp add: steady_def)
next
  case False
  have "\<bar>c\<bar> \<le> int n * \<bar>c\<bar>"
    using False by (simp add: mult_le_cancel_right1)
  with assms have c: "\<bar>c\<bar> < 2 ^ 53" by linarith
  have "sumOf (replicate n (of_int c)) = of_int (int n * c)"
    using sum_of_copies [of 0 n c] assms by (simp add: sumOf_def)
  then have "meanOf (replicate n (of_int c)) = rnd (of_int c)"
    using False by (simp add: meanOf_def ddiv_def)
  also have "\<dots> = of_int c"
    using rnd_exact [OF c, of 0] by simp
  finally show ?thesis
    by (simp add: steady_def)
qed

lemma consistency_of_zero:
  "max 0 (dsub 100 (dmul (ddiv (dadd (dadd 0 0) 0) 3) 10)) = 100"
  by (simp add: dadd_def ddiv_def dmul_def dsub_def rnd_small)

text \<open>
  C9.  As amended: for a non-empty list of throws the summary exists and its consistency
  is \<open>max 0 (100 - avgCV * 10)\<close>, where \<open>avgCV\<close> is the mean of the three coefficients of
  variation (standard deviation over mean, in percent, 0 when the mean is 0) of the
  push-off, velocity and stability values, every operation rounded to a double.  The
  consistency is 100 when each of the three sequences is steady: all its values are one
  value and the computed mean is that value.
\<close>

theorem consistency_of_session:
  assumes "throws \<noteq> []"
    and "pushoffs = map (\<lambda>t. or0 (pushoffStrength t)) throws"
    and "velocities = map (\<lambda>t. or0 (peakVelocity t)) throws"
    and "stabilities = map (\<lambda>t. or0 (stabilityScore t)) throws"
  shows "\<exists>s. calculateSessionSummary throws = Some s
       \<and> consistency s =
           max 0 (dsub 100 (dmul (ddiv
             (dadd (dadd (coefficientOfVariation pushoffs) (coefficientOfVariation velocities))
                   (coefficientOfVariation stabilities)) 3) 10))
       \<and> (steady pushoffs \<and> steady velocities \<and> steady stabilities
            \<longrightarrow> consistency s = 100)"
proof -
  from summary_consistency [OF assms(1)] obtain s where
    s: "calculateSessionSummary throws = Some s"
    and c: "consistency s =
      max 0 (dsub 100 (dmul (ddiv
        (dadd (dadd (coefficientOfVariation pushoffs) (coefficientOfVariation velocities))
              (coefficientOfVariation stabilities)) 3) 10))"
    unfolding assms(2-4) by blast
  have "consistency s = 100"
    if "steady pushoffs \<and> steady velocities \<and> steady stabilities"
    using that c by (simp only: steady_coefficientOfVariation consistency_of_zero)
  with s c show ?thesis by blast
qed

lemma steadyThrow_values:
  "map (\<lambda>t. or0 (pushoffStrength t)) [steadyThrow, steadyThrow, steadyThrow] = [3, 3, 3]"
  "map (\<lambda>t. or0 (peakVelocity t)) [steadyThrow, steadyThrow, steadyThrow] = [2, 2, 2]"
  "map (\<lambda>t. or0 (stabilityScore t)) [steadyThrow, steadyThrow, steadyThrow] = [80, 80, 80]"
  by (simp_all add: steadyThrow_def)

lemma steady_examples: "steady [3, 3, 3]" "steady [2, 2, 2]" "steady [80, 80, 80]"
  by (simp_all add: steady_def meanOf_def sumOf_def dadd_def ddiv_def rnd_small)

text \<open>Three equal throws of push-off 3, velocity 2 and stability 80: the means are
  computed without rounding.\<close>

theorem consistency_of_session_witness:
  "\<exists>s. calculateSessionSummary [steadyThrow, steadyThrow, steadyThrow] = Some s
      \<and> consistency s = 100"
proof -
  have ne: "[steadyThrow, steadyThrow, steadyThrow] \<noteq> []" by simp
  from consistency_of_session [OF ne refl refl refl] show ?thesis
    unfolding steadyThrow_values using steady_examples by blast
qed

text \<open>Three equal throws whose push-off is the double written 0.1.  The sum of the three
  is rounded, the mean is one unit in the last place above the value, and the coefficient
  of variation is not 0.\<close>

lemma binade_unique:
  assumes "2 powi k \<le> \<bar>x\<bar>" "\<bar>x\<bar> < 2 powi (k + 1)"
  shows "binade x = k"
proof -
  have x: "x \<noteq> 0"
  proof
    assume "x = 0"
    with assms(1) have "2 powi k \<le> (0::real)" by simp
    moreover have "(0::real) < 2 powi k" by (rule zero_less_power_int) simp
    ultimately show False by linarith
  qed
  let ?b = "binade x"
  have "2 powi k < (2::real) powi (?b + 1)"
    using assms(1) binade_bounds(2) [OF x] by linarith
  then have 1: "k < ?b + 1"
    using power_int_increasing [of "?b + 1" k "2::real"] by (cases "k < ?b + 1") auto
  have "2 powi ?b < (2::real) powi (k + 1)"
    using assms(2) binade_bounds(1) [OF x] by linarith
  then have 2: "?b < k + 1"
    using power_int_increasing [of "k + 1" ?b "2::real"] by (cases "?b < k + 1") auto
  from 1 2 show ?thesis by simp
qed

text \<open>Rounding a number whose scaled mantissa \<open>y\<close> has 53 bits before the point rounds
  the mantissa to the nearest integer.\<close>

lemma rnd_scaled:
  assumes "2 ^ 52 \<le> \<bar>y\<bar>" "\<bar>y\<bar> < 2 ^ 53"
  shows "rnd (y * 2 powi e) = of_int (roundHalfEven y) * 2 powi e"
proof -
  let ?x = "y * 2 powi e"
  have pos: "(0::real) < 2 powi e" by simp
  have ax: "\<bar>?x\<bar> = \<bar>y\<bar> * 2 powi e" by (simp add: abs_mult)
  have "2 powi (e + 52) = 2 ^ 52 * (2::real) powi e"
    by (simp add: power_int_add)
  also have "\<dots> \<le> \<bar>?x\<bar>"
    unfolding ax using assms(1) pos by (simp only: mult_le_cancel_right_pos)
  finally have lo: "2 powi (e + 52) \<le> \<bar>?x\<bar>" .
  have "\<bar>?x\<bar> < 2 ^ 53 * 2 powi e"
    unfolding ax using assms(2) pos by (simp only: mult_less_cancel_right_pos)
  also have "\<dots> = 2 powi (e + 52 + 1)"
    by (simp add: power_int_add)
  finally have hi: "\<bar>?x\<bar> < 2 powi (e + 52 + 1)" .
  have b: "binade ?x = e + 52" using lo hi by (rule binade_unique)
  have "y \<noteq> 0" using assms(1) by auto
  then have x: "?x \<noteq> 0" by simp
  have q: "?x / 2 powi e = y" by simp
  have e: "binade ?x - 52 = e" by (simp add: b)
  show ?thesis
    using x by (simp only: rnd_def e q if_False)
qed

lemma rnd_step:
  assumes "x = y / 2 ^ n" "2 ^ 52 \<le> \<bar>y\<bar>" "\<bar>y\<bar> < 2 ^ 53" "roundHalfEven y = m"
  shows "rnd x = of_int m / 2 ^ n"
  using rnd_scaled [OF assms(2,3), of "- int n"] assms(1,4)
  by (simp add: power_int_minus divide_inverse)

lemma rnd_exact_div:
  assumes "x = of_int m / 2 ^ n" "\<bar>m\<bar> < 2 ^ 53"
  shows "rnd x = x"
  using rnd_exact [OF assms(2), of "- int n"] assms(1)
  by (simp add: power_int_minus divide_inverse)

lemma tenth_sum: "sumOf [tenth, tenth, tenth] = 5404319552844596 / 2 ^ 54"
proof -
  have a1: "dadd 0 tenth = tenth"
    unfolding dadd_def
    using rnd_exact_div [of "0 + tenth" 3602879701896397 55] by (simp add: tenth_def)
  have a2: "dadd tenth tenth = 3602879701896397 / 2 ^ 54"
    unfolding dadd_def
    using rnd_exact_div [of "tenth + tenth" 3602879701896397 54] by (simp add: tenth_def)
  have r: "roundHalfEven (10808639105689191 / 2) = 5404319552844596"
    by code_simp
  have a3: "dadd (3602879701896397 / 2 ^ 54) tenth = 5404319552844596 / 2 ^ 54"
    unfolding dadd_def
    using rnd_step [of "3602879701896397 / 2 ^ 54 + tenth" "10808639105689191 / 2" 54, OF _ _ _ r]
    by (simp add: tenth_def)
  show ?thesis
    by (simp only: sumOf_def foldl_Cons foldl_Nil a1 a2 a3)
qed

lemma tenth_mean: "meanOf [tenth, tenth, tenth] = 7205759403792795 / 2 ^ 56"
proof -
  have r: "roundHalfEven (21617278211378384 / 3) = 7205759403792795"
    by code_simp
  have "ddiv (5404319552844596 / 2 ^ 54) 3 = 7205759403792795 / 2 ^ 56"
    unfolding ddiv_def
    using rnd_step [of "5404319552844596 / 2 ^ 54 / 3" "21617278211378384 / 3" 56, OF _ _ _ r]
    by simp
  then show ?thesis
    unfolding meanOf_def tenth_sum by simp
qed

lemma tenth_square:
  "dpow2 (dsub tenth (7205759403792795 / 2 ^ 56)) = 1 / 2 ^ 112"
proof -
  have d: "dsub tenth (7205759403792795 / 2 ^ 56) = - 1 / 2 ^ 56"
    unfolding dsub_def
    using rnd_exact_div [of "tenth - 7205759403792795 / 2 ^ 56" "- 1" 56]
    by (simp add: tenth_def)
  have "dpow2 (- 1 / 2 ^ 56) = 1 / 2 ^ 112"
    unfolding dpow2_def
    using rnd_exact_div [of "(- 1 / 2 ^ 56) * (- 1 / 2 ^ 56)" 1 112] by simp
  then show ?thesis unfolding d .
qed

lemma tenth_variance:
  "ddiv (sumOf [1 / 2 ^ 112, 1 / 2 ^ 112, 1 / 2 ^ 112]) 3 = 1 / 2 ^ 112"
proof -
  have a1: "dadd 0 (1 / 2 ^ 112) = 1 / 2 ^ 112"
    unfolding dadd_def using rnd_exact_div [of "0 + 1 / 2 ^ 112" 1 112] by simp
  have a2: "dadd (1 / 2 ^ 112) (1 / 2 ^ 112) = 1 / 2 ^ 111"
    unfolding dadd_def using rnd_exact_div [of "1 / 2 ^ 112 + 1 / 2 ^ 112" 1 111] by simp
  have a3: "dadd (1 / 2 ^ 111) (1 / 2 ^ 112) = 3 / 2 ^ 112"
    unfolding dadd_def using rnd_exact_div [of "1 / 2 ^ 111 + 1 / 2 ^ 112" 3 112] by simp
  have a4: "ddiv (3 / 2 ^ 112) 3 = 1 / 2 ^ 112"
    unfolding ddiv_def using rnd_exact_div [of "3 / 2 ^ 112 / 3" 1 112] by simp
  show ?thesis
    by (simp only: sumOf_def foldl_Cons foldl_Nil a1 a2 a3 a4)
qed

lemma sqrt_tiny: "sqrt (1 / 2 ^ 112) = 1 / 2 ^ 56"
  by (rule real_sqrt_unique) (simp_all add: power_divide flip: power_mult)

lemma tenth_deviation: "standardDeviation [tenth, tenth, tenth] = 1 / 2 ^ 56"
proof -
  have r: "rnd (1 / 2 ^ 56) = 1 / 2 ^ 56"
    using rnd_exact_div [of "1 / 2 ^ 56" 1 56] by simp
  have m: "map (\<lambda>v. dpow2 (dsub v (7205759403792795 / 2 ^ 56))) [tenth, tenth, tenth]
             = [1 / 2 ^ 112, 1 / 2 ^ 112, 1 / 2 ^ 112]"
    by (simp only: list.map tenth_square)
  have l: "real (length [tenth, tenth, tenth]) = 3" by simp
  show ?thesis
    unfolding standardDeviation_def tenth_mean m l tenth_variance
    by (simp only: dsqrt_def sqrt_tiny r)
qed

lemma tenth_cv: "coefficientOfVariation [tenth, tenth, tenth] = 8796093022207998 / 2 ^ 99"
proof -
  have r1: "roundHalfEven (40564819207303340847894502572032 / 7205759403792795)
              = 5629499534213119"
    by code_simp
  have u: "ddiv (1 / 2 ^ 56) (7205759403792795 / 2 ^ 56) = 5629499534213119 / 2 ^ 105"
    unfolding ddiv_def
    using rnd_step [of "1 / 2 ^ 56 / (7205759403792795 / 2 ^ 56)"
        "40564819207303340847894502572032 / 7205759403792795" 105, OF _ _ _ r1]
    by simp
  have r2: "roundHalfEven (140737488355327975 / 16) = 8796093022207998"
    by code_simp
  have c: "dmul (5629499534213119 / 2 ^ 105) 100 = 8796093022207998 / 2 ^ 99"
    unfolding dmul_def
    using rnd_step [of "5629499534213119 / 2 ^ 105 * 100" "140737488355327975 / 16" 99,
        OF _ _ _ r2]
    by simp
  show ?thesis
    unfolding coefficientOfVariation_def tenth_mean tenth_deviation u c by simp
qed

lemma tenth_consistency:
  "max 0 (dsub 100 (dmul (ddiv (dadd (dadd (8796093022207998 / 2 ^ 99) 0) 0) 3) 10))
     = 7036874417766397 / 2 ^ 46"
proof -
  have a: "dadd (8796093022207998 / 2 ^ 99) 0 = 8796093022207998 / 2 ^ 99"
    unfolding dadd_def
    using rnd_exact_div [of "8796093022207998 / 2 ^ 99 + 0" 8796093022207998 99] by simp
  have v: "ddiv (8796093022207998 / 2 ^ 99) 3 = 2932031007402666 / 2 ^ 99"
    unfolding ddiv_def
    using rnd_exact_div [of "8796093022207998 / 2 ^ 99 / 3" 2932031007402666 99] by simp
  have t: "dmul (2932031007402666 / 2 ^ 99) 10 = 7330077518506665 / 2 ^ 97"
    unfolding dmul_def
    using rnd_exact_div [of "2932031007402666 / 2 ^ 99 * 10" 7330077518506665 97] by simp
  have r: "roundHalfEven (15845632502852860188631271560535 / 2251799813685248)
             = 7036874417766397"
    by code_simp
  have d: "dsub 100 (7330077518506665 / 2 ^ 97) = 7036874417766397 / 2 ^ 46"
    unfolding dsub_def
    using rnd_step [of "100 - 7330077518506665 / 2 ^ 97"
        "15845632502852860188631271560535 / 2251799813685248" 46, OF _ _ _ r]
    by simp
  show ?thesis
    unfolding a v t d by simp
qed

lemma tenthThrow_values:
  "map (\<lambda>t. or0 (pushoffStrength t)) [tenthThrow, tenthThrow, tenthThrow]
     = [tenth, tenth, tenth]"
  "map (\<lambda>t. or0 (peakVelocity t)) [tenthThrow, tenthThrow, tenthThrow] = [2, 2, 2]"
  "map (\<lambda>t. or0 (stabilityScore t)) [tenthThrow, tenthThrow, tenthThrow] = [80, 80, 80]"
  by (simp_all add: tenthThrow_def)

theorem constant_session_below_100:
  "\<exists>s. calculateSessionSummary [tenthThrow, tenthThrow, tenthThrow] = Some s
      \<and> consistency s = 7036874417766397 / 2 ^ 46
      \<and> consistency s < 100"
proof -
  have ne: "[tenthThrow, tenthThrow, tenthThrow] \<noteq> []" by simp
  from summary_consistency [OF ne] obtain s where
    s: "calculateSessionSummary [tenthThrow, tenthThrow, tenthThrow] = Some s"
    and c: "consistency s =
      max 0 (dsub 100 (dmul (ddiv
        (dadd (dadd (coefficientOfVariation [tenth, tenth, tenth])
                    (coefficientOfVariation [2, 2, 2]))
              (coefficientOfVariation [80, 80, 80])) 3) 10))"
    unfolding tenthThrow_values by blast
  have "consistency s = 7036874417766397 / 2 ^ 46"
    unfolding c tenth_cv steady_coefficientOfVariation [OF steady_examples(2)]
      steady_coefficientOfVariation [OF steady_examples(3)]
    by (rule tenth_consistency)
  moreover have "(7036874417766397 / 2 ^ 46 :: real) < 100" by simp
  ultimately show ?thesis using s by auto
qed

section \<open>The arrays of a stream stay aligned\<close>

text \<open>The hypotheses on array lengths in the theorems above hold in every state of the
  recorder: a new recording starts with empty arrays, the handler pushes to the four arrays
  of a stream together, and trimming slices them by the same interval.\<close>

lemma startRecording_aligned: "alignedData (sensorData (startRecording now s))"
  by (simp add: startRecording_def startSensorListening_def clearData_def alignedData_def
      aligned_def empty_sensor_data_def empty_axes_def)

lemma pushAcceleration_aligned:
  "alignedData sd \<Longrightarrow> alignedData (pushAcceleration acc t sd)"
  by (simp add: pushAcceleration_def alignedData_def aligned_def Let_def)

lemma pushRotation_aligned:
  "alignedData sd \<Longrightarrow> alignedData (pushRotation rot t sd)"
  by (simp add: pushRotation_def alignedData_def aligned_def Let_def)

lemma trimToActualThrow_aligned:
  "alignedData sd \<Longrightarrow> alignedData (trimToActualThrow sd)"
  by (simp add: trimToActualThrow_def alignedData_def aligned_def Let_def slice_def)

lemma calculateVelocity_aligned:
  "alignedData sd \<Longrightarrow> alignedData (calculateVelocity sd)"
  by (simp add: alignedData_def)

lemma stopRecording_aligned:
  assumes "alignedData (sensorData s)"
  shows "alignedData (sensorData (stopRecording now s))"
proof (cases "hasData (sensorData s)")
  case True
  then show ?thesis
    using assms
    by (simp add: stopRecording_sensorData calculateVelocity_aligned trimToActualThrow_aligned)
next
  case False
  then show ?thesis
    using assms by (simp add: stopRecording_noData)
qed

lemma checkAutoStop_aligned:
  "alignedData (sensorData s) \<Longrightarrow> alignedData (sensorData (checkAutoStop now acc t s))"
  by (simp add: checkAutoStop_def Let_def showAutoStopNotification_def stopRecording_aligned)

lemma deviceMotionHandler_aligned:
  assumes "alignedData (sensorData s)"
  shows "alignedData (sensorData (deviceMotionHandler now event s))"
proof (cases "isRecording s")
  case False
  with assms show ?thesis by (simp add: deviceMotionHandler_stopped)
next
  case True
  let ?t = "eventTimestamp now s"
  define s1 where "s1 =
    (case accelerationIncludingGravity event of
       None \<Rightarrow> s
     | Some acc \<Rightarrow>
         let s' = s\<lparr>sensorData := pushAcceleration acc ?t (sensorData s)\<rparr>
         in if checkDue ?t s'
            then (checkAutoStop now acc ?t s')\<lparr>lastAutoStopCheck := ?t\<rparr>
            else s')"
  have s1: "alignedData (sensorData s1)"
    using assms
    by (auto simp: s1_def Let_def pushAcceleration_aligned checkAutoStop_aligned
        split: option.splits)
  have "deviceMotionHandler now event s =
      (case rotationRate event of
         None \<Rightarrow> s1
       | Some rot \<Rightarrow> s1\<lparr>sensorData := pushRotation rot ?t (sensorData s1)\<rparr>)"
    unfolding deviceMotionHandler_def s1_def Let_def
    using True by (simp only: not_True_eq_False if_False)
  with s1 show ?thesis
    by (auto simp: pushRotation_aligned split: option.splits)
qed

lemma runMotion_aligned:
  "alignedData (sensorData s) \<Longrightarrow> alignedData (sensorData (runMotion evs s))"
proof (induction evs arbitrary: s)
  case Nil
  then show ?case by simp
next
  case (Cons ev evs)
  then show ?case by (cases ev) (simp add: deviceMotionHandler_aligned)
qed

lemma recording_aligned:
  "alignedData (sensorData (runMotion evs (startRecording now s)))"
  "alignedData (sensorData (stopRecording now' (runMotion evs (startRecording now s))))"
  by (simp_all add: runMotion_aligned stopRecording_aligned startRecording_aligned)

end
